theory Spec2Isabelle
  imports Main
begin

section \<open>Operation bundles: class \<open>Mixin\<close>\<close>

text \<open>
  The development embeds \<^verbatim>\<open>src/dist/index.js\<close> (the compiled form of the TypeScript
  source, which has the same statements). JavaScript objects are mutable and shared, so
  bundles live in a store, and every method takes the addresses of its receiver and of its
  argument.

  A function value is opaque to the library: only its identity is ever compared
  (\<^verbatim>\<open>===\<close>), so it is a number. A slot of a bundle holds \<^verbatim>\<open>null\<close> or a
  function (the type \<^verbatim>\<open>CRUDFunction\<close>).
\<close>

type_synonym fnid = nat
type_synonym addr = nat

datatype accessor = Make | Get | Set | Del

datatype crud = Null | Fn fnid

text \<open>
  The \<^verbatim>\<open>type\<close> argument of the constructor is a string, or \<^verbatim>\<open>undefined\<close>
  when the caller leaves it out.
\<close>

datatype tyval = Undefined | Str string

text \<open>
  The code asks of an object whether it has a property before it reads it
  (\<^verbatim>\<open>"type" in mixin\<close>, \<^verbatim>\<open>mixin.hasOwnProperty(accessor)\<close>), so each property
  is optional in the model: \<open>None\<close> is an object without the property, \<open>Some v\<close> one
  whose property holds \<open>v\<close>. The four properties \<^verbatim>\<open>make\<close>, \<^verbatim>\<open>get\<close>,
  \<^verbatim>\<open>set\<close> and \<^verbatim>\<open>del\<close> are the field \<open>slot\<close>, indexed by the accessor as
  the code indexes \<^verbatim>\<open>this[accessor]\<close>. \<open>writeProtectedMethods\<close> is the object of
  four booleans that every instance creates for itself. Every object in the store is an instance of
  \<^verbatim>\<open>Mixin\<close>, as the signatures of the TypeScript source require: it has the methods
  of the class, and what it may lack are properties of its own.
\<close>

record mixin =
  type :: "tyval option"
  slot :: "accessor \<Rightarrow> crud option"
  writeProtectedMethods :: "accessor \<Rightarrow> bool"

type_synonym heap = "addr \<Rightarrow> mixin"

text \<open>
  \<^verbatim>\<open>constructor(type, { make = null, get = null, set = null, del = null } = {})\<close>:
  the initializer is an object that may lack any of the four keys; a missing key takes the
  default \<^verbatim>\<open>null\<close>. The field initializers have run before the body, so the new
  object owns all five properties and its four flags are \<^verbatim>\<open>true\<close>.
\<close>

definition Mixin_constructor :: "tyval \<Rightarrow> (accessor \<Rightarrow> crud option) \<Rightarrow> mixin" where
  "Mixin_constructor ty init =
     \<lparr> type = Some ty,
       slot = (\<lambda>a. Some (case init a of None \<Rightarrow> Null | Some v \<Rightarrow> v)),
       writeProtectedMethods = (\<lambda>a. True) \<rparr>"

text \<open>
  \<^verbatim>\<open>allowOverride({ allowMake = true, allowGet = true, allowSet = true, allowDel = true } = {})\<close>:
  the argument may lack any key (\<open>None\<close>), and a missing key takes the default
  \<^verbatim>\<open>true\<close>. A call without argument is a call with the empty object.
\<close>

record overrides =
  allowMake :: "bool option"
  allowGet :: "bool option"
  allowSet :: "bool option"
  allowDel :: "bool option"

definition no_overrides :: overrides where
  "no_overrides = \<lparr> allowMake = None, allowGet = None, allowSet = None, allowDel = None \<rparr>"

definition or_true :: "bool option \<Rightarrow> bool" where
  "or_true b = (case b of None \<Rightarrow> True | Some v \<Rightarrow> v)"

definition allowOverride :: "overrides \<Rightarrow> mixin \<Rightarrow> mixin" where
  "allowOverride ov this =
     this\<lparr> writeProtectedMethods :=
       (writeProtectedMethods this)
         (Make := \<not> or_true (allowMake ov),
          Get := \<not> or_true (allowGet ov),
          Set := \<not> or_true (allowSet ov),
          Del := \<not> or_true (allowDel ov)) \<rparr>"

definition allowOverride_at :: "heap \<Rightarrow> addr \<Rightarrow> overrides \<Rightarrow> heap" where
  "allowOverride_at h this ov = h(this := allowOverride ov (h this))"

text \<open>
  \<^verbatim>\<open>patchProperty(mixin, accessor)\<close>, statement by statement: return when the source
  does not own the property; return when the receiver owns it, holds a value other than
  \<^verbatim>\<open>null\<close> there and protects it; otherwise set the flag and copy the source's value,
  whatever it is.
\<close>

definition patchProperty :: "mixin \<Rightarrow> mixin \<Rightarrow> accessor \<Rightarrow> mixin" where
  "patchProperty this mixin accessor =
     (if slot mixin accessor = None then this
      else if (case slot this accessor of None \<Rightarrow> False | Some v \<Rightarrow> v \<noteq> Null)
              \<and> writeProtectedMethods this accessor then this
      else this\<lparr> writeProtectedMethods := (writeProtectedMethods this)(accessor := True),
                 slot := (slot this)(accessor := slot mixin accessor) \<rparr>)"

definition patchProperty_at :: "heap \<Rightarrow> addr \<Rightarrow> addr \<Rightarrow> accessor \<Rightarrow> heap" where
  "patchProperty_at h this mixin accessor =
     h(this := patchProperty (h this) (h mixin) accessor)"

text \<open>
  The second guard of \<^verbatim>\<open>patchProperty\<close> on its own: the receiver refuses the copy
  when it owns the property, holds a value other than \<^verbatim>\<open>null\<close> and protects it.
\<close>

definition refuses :: "mixin \<Rightarrow> accessor \<Rightarrow> bool" where
  "refuses this a =
     ((case slot this a of None \<Rightarrow> False | Some v \<Rightarrow> v \<noteq> Null) \<and> writeProtectedMethods this a)"

text \<open>
  \<^verbatim>\<open>patchMixin(mixin)\<close>: the four calls in the order of the source. Each call reads
  the store its predecessor left, so a bundle merged into itself is covered.
\<close>

definition patchMixin_at :: "heap \<Rightarrow> addr \<Rightarrow> addr \<Rightarrow> heap" where
  "patchMixin_at h this mixin =
     (let h1 = patchProperty_at h this mixin Make;
          h2 = patchProperty_at h1 this mixin Get;
          h3 = patchProperty_at h2 this mixin Set
      in patchProperty_at h3 this mixin Del)"


section \<open>Contribution groups: class \<open>MixinPlugin\<close>\<close>

text \<open>
  A group is an object with five reserved properties and any number of further ones, each
  of which the library takes for a bundle. Both \<^verbatim>\<open>for (const prop in ...)\<close> loops
  skip the five reserved names, so the record keeps the reserved properties as fields and
  the others in \<open>members\<close>, a list of names and addresses in the order of their creation.
  A group handed to the registry may be a plain object, so every reserved property may be
  missing. \<open>initPlugin\<close> and \<open>loadCondition\<close> hold \<^verbatim>\<open>null\<close> or a function, and
  \<^verbatim>\<open>null\<close> is what the class gives them by default. \<open>loadCondition\<close> is a
  predicate without arguments: \<open>Answers b\<close> is one that answers \<open>b\<close>.
  \<open>plugin_allowOverride\<close> is the property \<^verbatim>\<open>allowOverride\<close>, read for its truth
  value only.
\<close>

datatype condition = Null_condition | Answers bool

record plugin =
  name :: "string option"
  version :: "string option"
  plugin_allowOverride :: "bool option"
  initPlugin :: "crud option"
  loadCondition :: "condition option"
  members :: "(string \<times> addr) list"

text \<open>
  The order in which JavaScript enumerates the properties of an object: the names that
  are array indices (canonical decimal numerals below \<open>2\<^sup>3\<^sup>2 - 1\<close>) first, in
  ascending numeric order, then the other names in the order of their creation.
\<close>

definition is_digit :: "char \<Rightarrow> bool" where
  "is_digit c = (48 \<le> (of_char c :: nat) \<and> (of_char c :: nat) \<le> 57)"

definition digits_value :: "string \<Rightarrow> nat" where
  "digits_value s = foldl (\<lambda>n c. 10 * n + (of_char c - 48)) 0 s"

definition is_array_index :: "string \<Rightarrow> bool" where
  "is_array_index s =
     (case s of [] \<Rightarrow> False
      | c # cs \<Rightarrow> list_all is_digit s \<and> (if c = CHR ''0'' then cs = [] else True)
                 \<and> digits_value s < 2 ^ 32 - 1)"

definition for_in_order :: "(string \<times> 'a) list \<Rightarrow> (string \<times> 'a) list" where
  "for_in_order props =
     sort_key (\<lambda>p. digits_value (fst p)) (filter (\<lambda>p. is_array_index (fst p)) props)
     @ filter (\<lambda>p. \<not> is_array_index (fst p)) props"

text \<open>
  \<^verbatim>\<open>obj[key] = value\<close> on an object kept as the list of its own properties: an
  existing property keeps its place, a new one goes last. This is what the assignment does
  for every key but \<^verbatim>\<open>"__proto__"\<close>; the registry, which is where the function is
  used, treats that key apart.
\<close>

fun assign :: "(string \<times> 'a) list \<Rightarrow> string \<Rightarrow> 'a \<Rightarrow> (string \<times> 'a) list" where
  "assign [] key v = [(key, v)]"
| "assign ((k, x) # props) key v =
     (if k = key then (k, v) # props else (k, x) # assign props key v)"



section \<open>The registry: class \<open>MixinCompositor\<close>\<close>

text \<open>
  \<open>plugins\<close> and \<open>mixins\<close> are plain objects used as dictionaries. \<open>plugins\<close> is
  enumerated, so it is the list of its properties; \<open>mixins\<close> is only looked up, so it is a
  map from keys to arrays of addresses. A property key is a string: a type that is
  \<^verbatim>\<open>undefined\<close> is looked up as \<^verbatim>\<open>"undefined"\<close>. The prototype of
  \<open>plugins\<close> is \<^verbatim>\<open>Object.prototype\<close> until an assignment to the key
  \<^verbatim>\<open>"__proto__"\<close> replaces it: \<open>plugins_proto\<close> is the group that is then the
  prototype.
\<close>

record compositor =
  plugins :: "(string \<times> plugin) list"
  plugins_proto :: "plugin option"
  mixins :: "string \<Rightarrow> addr list option"

type_synonym state = "heap \<times> compositor"

definition property_key :: "tyval \<Rightarrow> string" where
  "property_key ty = (case ty of Undefined \<Rightarrow> ''undefined'' | Str s \<Rightarrow> s)"

text \<open>
  \<^verbatim>\<open>type in this.mixins\<close> also holds for the names that the empty object inherits from
  \<^verbatim>\<open>Object.prototype\<close>. None of the values found there is iterable, so the
  \<^verbatim>\<open>for ... of\<close> loop over it throws a \<^verbatim>\<open>TypeError\<close> of its own.
\<close>

definition object_prototype_names :: "string list" where
  "object_prototype_names =
     [''constructor'', ''__defineGetter__'', ''__defineSetter__'', ''hasOwnProperty'',
      ''__lookupGetter__'', ''__lookupSetter__'', ''isPrototypeOf'',
      ''propertyIsEnumerable'', ''toString'', ''valueOf'', ''__proto__'',
      ''toLocaleString'']"

text \<open>
  An exception leaves the objects as they are at the moment it is thrown, so an outcome
  carries the state in both cases. \<open>Not_an_object\<close> is the \<^verbatim>\<open>TypeError\<close> of the
  operator \<^verbatim>\<open>in\<close> on a value that is no object, \<open>Raised\<close> is whatever an
  initializer of a group throws or rejects with.
\<close>

datatype error = Missing_type | Not_iterable | Not_an_object | Raised nat

datatype 'a outcome = Returned 'a | Threw error 'a

fun state_of :: "'a outcome \<Rightarrow> 'a" where
  "state_of (Returned s) = s"
| "state_of (Threw e s) = s"

text \<open>
  The loop of \<^verbatim>\<open>addMixin\<close>: the new bundle takes from each registered one, then this
  one takes from the new bundle.
\<close>

fun patch_each :: "heap \<Rightarrow> addr \<Rightarrow> addr list \<Rightarrow> heap" where
  "patch_each h mixin [] = h"
| "patch_each h mixin (mixin2 # rest) =
     patch_each (patchMixin_at (patchMixin_at h mixin mixin2) mixin2 mixin) mixin rest"

definition addMixin :: "addr \<Rightarrow> state \<Rightarrow> state outcome" where
  "addMixin mixin s =
     (let h = fst s; c = snd s in
      case type (h mixin) of
        None \<Rightarrow> Threw Missing_type s
      | Some ty \<Rightarrow>
          (let key = property_key ty in
           case mixins c key of
             None \<Rightarrow>
               if key \<in> set object_prototype_names then Threw Not_iterable s
               else Returned (h, c\<lparr> mixins := (mixins c)(key := Some [mixin]) \<rparr>)
           | Some registered \<Rightarrow>
               Returned (patch_each h mixin registered,
                         c\<lparr> mixins := (mixins c)(key := Some (registered @ [mixin])) \<rparr>)))"

fun addMixins :: "addr list \<Rightarrow> state \<Rightarrow> state outcome" where
  "addMixins [] s = Returned s"
| "addMixins (mixin # rest) s =
     (case addMixin mixin s of
        Threw e s' \<Rightarrow> Threw e s'
      | Returned s' \<Rightarrow> addMixins rest s')"

text \<open>
  \<^verbatim>\<open>this.plugins[pluginName] = plugin\<close>: for the name \<^verbatim>\<open>"__proto__"\<close> the
  assignment runs the setter that \<^verbatim>\<open>Object.prototype\<close> has under that name, which
  makes the group the prototype of \<open>plugins\<close> and stores no property; for every other
  name it stores the group as a property.
\<close>

definition store_plugin :: "compositor \<Rightarrow> string \<Rightarrow> plugin \<Rightarrow> compositor" where
  "store_plugin this pluginName plugin =
     (if pluginName = ''__proto__'' then this\<lparr> plugins_proto := Some plugin \<rparr>
      else this\<lparr> plugins := assign (plugins this) pluginName plugin \<rparr>)"

text \<open>
  \<^verbatim>\<open>addPlugin(plugin)\<close>: a load condition that answers falsy cancels the call;
  otherwise the group is stored under its name and its members are added in the order of
  enumeration.
\<close>

definition addPlugin :: "plugin \<Rightarrow> state \<Rightarrow> state outcome" where
  "addPlugin plugin s =
     (let pluginName = (case name plugin of None \<Rightarrow> ''Untitled Plugin'' | Some n \<Rightarrow> n) in
      if loadCondition plugin = Some (Answers False) then Returned s
      else addMixins (map snd (for_in_order (members plugin)))
             (fst s, store_plugin (snd s) pluginName plugin))"

fun addPlugins :: "plugin list \<Rightarrow> state \<Rightarrow> state outcome" where
  "addPlugins [] s = Returned s"
| "addPlugins (plugin # rest) s =
     (case addPlugin plugin s of
        Threw e s' \<Rightarrow> Threw e s'
      | Returned s' \<Rightarrow> addPlugins rest s')"

text \<open>
  A new registry has no groups and no bundles (\<^verbatim>\<open>plugins = {}; mixins = {}\<close>); the
  constructor then adds the groups it is given, in order.
\<close>

definition no_plugins :: compositor where
  "no_plugins = \<lparr> plugins = [], plugins_proto = None, mixins = (\<lambda>k. None) \<rparr>"

definition MixinCompositor_constructor :: "plugin list \<Rightarrow> heap \<Rightarrow> state outcome" where
  "MixinCompositor_constructor ps h = addPlugins ps (h, no_plugins)"

text \<open>
  \<^verbatim>\<open>initMixinPlugins(...initParameters)\<close>. What an initializer does is not the
  library's: \<open>call f this args w\<close> is the parameter that runs the function \<open>f\<close> with
  receiver \<open>this\<close> and argument list \<open>args\<close> in the world \<open>w\<close> of the application, and
  gives the world it leaves and the error it fails with, if any. The rest parameter
  \<^verbatim>\<open>initParameters\<close> is an array, and \<^verbatim>\<open>initPlugin.call(plugin, initParameters)\<close>
  passes it as the one argument of the call. Each call is awaited before the loop goes on,
  so the loop is a sequence that ends at the first failure.

  The code reads \<^verbatim>\<open>this.plugins[name]\<close> anew in every round, so a group that an
  initializer stores in the registry during the call would show in the rounds that follow.
  The world of the application does not hold the registry: the model covers the calls
  during which no initializer stores a group, and there the groups are those that the
  registry holds when the call starts.
\<close>

datatype jsval = Prim nat | Arr "jsval list"

datatype 'a promise = Resolved 'a | Rejected error

fun init_each ::
  "(fnid \<Rightarrow> plugin \<Rightarrow> jsval list \<Rightarrow> 'w \<Rightarrow> 'w \<times> error option) \<Rightarrow>
   (string \<times> plugin) list \<Rightarrow> jsval list \<Rightarrow> 'w \<Rightarrow> 'w \<times> error option" where
  "init_each call [] initParameters w = (w, None)"
| "init_each call (p # rest) initParameters w =
     (case initPlugin (snd p) of
        Some (Fn f) \<Rightarrow>
          (case call f (snd p) [Arr initParameters] w of
             (w', Some e) \<Rightarrow> (w', Some e)
           | (w', None) \<Rightarrow> init_each call rest initParameters w')
      | _ \<Rightarrow> init_each call rest initParameters w)"

text \<open>
  After the properties of \<open>plugins\<close> itself the loop enumerates those it inherits: the
  properties of the group that is its prototype, but for the names that \<open>plugins\<close> has
  itself. For such a name \<^verbatim>\<open>this.plugins[name]\<close> is a value of that group and not
  a group. Where the value is a function or a bundle, \<^verbatim>\<open>"initPlugin" in plugin\<close> is
  false and the round ends; where it is a string, a boolean or \<^verbatim>\<open>null\<close>, the
  operator throws. No initializer runs in these rounds, so the order of the inherited
  names does not show, and the call fails in them when one of the names in
  \<open>primitive_names\<close> is reached.
\<close>

definition primitive_names :: "plugin \<Rightarrow> string list" where
  "primitive_names g =
     (if name g = None then [] else [''name''])
     @ (if version g = None then [] else [''version''])
     @ (if plugin_allowOverride g = None then [] else [''allowOverride''])
     @ (if initPlugin g = Some Null then [''initPlugin''] else [])
     @ (if loadCondition g = Some Null_condition then [''loadCondition''] else [])"

definition reaches_primitive :: "compositor \<Rightarrow> bool" where
  "reaches_primitive this =
     (case plugins_proto this of
        None \<Rightarrow> False
      | Some g \<Rightarrow> list_ex (\<lambda>k. k \<notin> set (map fst (plugins this))) (primitive_names g))"

definition initMixinPlugins ::
  "(fnid \<Rightarrow> plugin \<Rightarrow> jsval list \<Rightarrow> 'w \<Rightarrow> 'w \<times> error option) \<Rightarrow>
   compositor \<Rightarrow> jsval list \<Rightarrow> 'w \<Rightarrow> compositor promise \<times> 'w" where
  "initMixinPlugins call this initParameters w =
     (case init_each call (for_in_order (plugins this)) initParameters w of
        (w', Some e) \<Rightarrow> (Rejected e, w')
      | (w', None) \<Rightarrow>
          if reaches_primitive this then (Rejected Not_an_object, w')
          else (Resolved this, w'))"


section \<open>Observations on a registry\<close>

text \<open>
  The predicates the statements below are written with: a bundle is registered under a
  key when the array found there holds its address; a registry is well indexed when every
  registered bundle has a type and stands under the key of that type. An application
  is a sequence of calls of \<^verbatim>\<open>addMixin\<close> and \<^verbatim>\<open>addPlugin\<close>, each going on from
  the state the call before has left, whether it returned or threw.
\<close>

definition registered_under :: "compositor \<Rightarrow> string \<Rightarrow> addr \<Rightarrow> bool" where
  "registered_under c key a = (case mixins c key of None \<Rightarrow> False | Some xs \<Rightarrow> a \<in> set xs)"

definition well_indexed :: "state \<Rightarrow> bool" where
  "well_indexed s =
     (\<forall>key a. registered_under (snd s) key a \<longrightarrow>
        (case type (fst s a) of None \<Rightarrow> False | Some ty \<Rightarrow> property_key ty = key))"

definition registered_list :: "compositor \<Rightarrow> string \<Rightarrow> addr list" where
  "registered_list c key = (case mixins c key of None \<Rightarrow> [] | Some xs \<Rightarrow> xs)"

datatype call = Add_mixin addr | Add_plugin plugin

fun perform :: "call \<Rightarrow> state \<Rightarrow> state" where
  "perform (Add_mixin mixin) s = state_of (addMixin mixin s)"
| "perform (Add_plugin plugin) s = state_of (addPlugin plugin s)"


section \<open>Initializers, as called and as claimed\<close>

text \<open>
  An invocation is a function with its receiver and its arguments. \<open>invocations\<close> lists
  what a call of \<^verbatim>\<open>initMixinPlugins\<close> has to run, \<open>in_sequence\<close> runs a list of
  invocations one after the other up to the first failure. \<open>claimed_invocations\<close>
  follows the words of the specification instead: the groups in the order of their
  registration, each initializer with the arguments of the call. \<open>recording\<close> and
  \<open>failing_at\<close> are two worlds for the examples: both record every invocation, and in
  the second the function \<open>bad\<close> fails.
\<close>

type_synonym invocation = "fnid \<times> plugin \<times> jsval list"

definition invocations :: "compositor \<Rightarrow> jsval list \<Rightarrow> invocation list" where
  "invocations this initParameters =
     concat (map (\<lambda>p. case initPlugin (snd p) of
                          Some (Fn f) \<Rightarrow> [(f, snd p, [Arr initParameters])]
                        | _ \<Rightarrow> [])
                 (for_in_order (plugins this)))"

fun in_sequence ::
  "(fnid \<Rightarrow> plugin \<Rightarrow> jsval list \<Rightarrow> 'w \<Rightarrow> 'w \<times> error option) \<Rightarrow>
   invocation list \<Rightarrow> 'w \<Rightarrow> 'w \<times> error option" where
  "in_sequence call [] w = (w, None)"
| "in_sequence call (i # rest) w =
     (case call (fst i) (fst (snd i)) (snd (snd i)) w of
        (w', Some e) \<Rightarrow> (w', Some e)
      | (w', None) \<Rightarrow> in_sequence call rest w')"

definition claimed_invocations :: "plugin list \<Rightarrow> jsval list \<Rightarrow> invocation list" where
  "claimed_invocations registered initArgs =
     concat (map (\<lambda>g. case initPlugin g of Some (Fn f) \<Rightarrow> [(f, g, initArgs)] | _ \<Rightarrow> [])
                 registered)"

definition recording ::
  "fnid \<Rightarrow> plugin \<Rightarrow> jsval list \<Rightarrow> invocation list \<Rightarrow> invocation list \<times> error option" where
  "recording f this args w = (w @ [(f, this, args)], None)"

definition failing_at ::
  "fnid \<Rightarrow> nat \<Rightarrow> fnid \<Rightarrow> plugin \<Rightarrow> jsval list \<Rightarrow> invocation list \<Rightarrow>
   invocation list \<times> error option" where
  "failing_at bad e f this args w =
     (w @ [(f, this, args)], if f = bad then Some (Raised e) else None)"


section \<open>The union of two bundles\<close>

text \<open>
  The slot that claim C2 expects both bundles to hold, and the bundles that own their four
  slots and protect every operation they hold, as every bundle does after construction.
\<close>

definition union_slot :: "heap \<Rightarrow> addr \<Rightarrow> addr \<Rightarrow> accessor \<Rightarrow> crud option" where
  "union_slot h a b acc = (if slot (h a) acc = Some Null then slot (h b) acc else slot (h a) acc)"

definition protects_operations :: "mixin \<Rightarrow> bool" where
  "protects_operations m =
     (\<forall>acc. slot m acc \<noteq> None \<and> (slot m acc = Some Null \<or> writeProtectedMethods m acc))"


section \<open>What a merge leaves in a slot\<close>

text \<open>
  The closed form of the loop of \<^verbatim>\<open>addMixin\<close>, slot by slot. A bundle that does not
  refuse takes whatever a source owns, and refuses from the moment it holds an operation
  under protection. So from the registered bundles, in their order, it is offered the
  first operation that one of them holds; \<^verbatim>\<open>null\<close> when none holds an operation and
  one owns the slot; nothing when none owns the slot. \<open>taken\<close> is what the new bundle
  holds after the loop: its own slot where it refuses, else what it is offered, and its
  own slot when it is offered nothing.
\<close>

fun offered :: "heap \<Rightarrow> addr list \<Rightarrow> accessor \<Rightarrow> crud option" where
  "offered h [] acc = None"
| "offered h (b # rest) acc =
     (case slot (h b) acc of
        None \<Rightarrow> offered h rest acc
      | Some Null \<Rightarrow> (case offered h rest acc of None \<Rightarrow> Some Null | Some v \<Rightarrow> Some v)
      | Some (Fn f) \<Rightarrow> Some (Fn f))"

definition taken :: "heap \<Rightarrow> addr \<Rightarrow> addr list \<Rightarrow> accessor \<Rightarrow> crud option" where
  "taken h mixin registered acc =
     (if refuses (h mixin) acc then slot (h mixin) acc
      else case offered h registered acc of
             None \<Rightarrow> slot (h mixin) acc
           | Some v \<Rightarrow> Some v)"


section \<open>Example stores\<close>

text \<open>
  The stores and groups at which the theorems below are instantiated. In \<open>ex4_heap\<close> and
  \<open>ex2_heap\<close> one bundle was unprotected by \<^verbatim>\<open>allowOverride()\<close> after its
  construction; in \<open>ex5_heap\<close> the object at address 1 has no \<^verbatim>\<open>type\<close>
  property. In \<open>ex10_two\<close> the bundles at 10 and 20 of \<open>ex10_three\<close> are
  registered, and the bundle at 30 is not yet. The groups of \<open>ex6_registry\<close> and
  \<open>ex6_numbered\<close> have an initializer each and no members; \<open>ex6_registry\<close> is built by
  six calls of \<^verbatim>\<open>addPlugin\<close>, the last of which stores a second group under the
  name \<^verbatim>\<open>"b"\<close>.
\<close>

definition ex4_heap :: heap where
  "ex4_heap = (\<lambda>x. Mixin_constructor (Str ''T'') (\<lambda>a. None))
                (0 := allowOverride no_overrides
                        (Mixin_constructor (Str ''T'') ((\<lambda>a. None)(Get := Some (Fn 1)))))"

definition ex5_heap :: heap where
  "ex5_heap = (\<lambda>x. Mixin_constructor (Str ''T'') (\<lambda>a. None))
                (1 := (Mixin_constructor (Str ''T'') (\<lambda>a. None))\<lparr> type := None \<rparr>)"

definition ex5_plugin :: plugin where
  "ex5_plugin = \<lparr> name = Some ''P'', version = None, plugin_allowOverride = None,
                  initPlugin = None, loadCondition = None,
                  members = [(''A'', 0), (''B'', 1), (''C'', 2)] \<rparr>"

definition ex10_three :: heap where
  "ex10_three = (\<lambda>x. Mixin_constructor Undefined ((\<lambda>a. None)(Set := Some (Fn 3))))
                  (10 := Mixin_constructor Undefined ((\<lambda>a. None)(Make := Some (Fn 1))),
                   20 := Mixin_constructor Undefined ((\<lambda>a. None)(Get := Some (Fn 2))))"

definition ex10_two :: state where
  "ex10_two = state_of (addMixins [10, 20] (ex10_three, no_plugins))"

definition ex9_heap :: heap where
  "ex9_heap = (\<lambda>x. Mixin_constructor (Str ''T'') ((\<lambda>a. None)(Make := Some (Fn 3))))
                (0 := Mixin_constructor (Str ''T'') ((\<lambda>a. None)(Make := Some (Fn 1))),
                 1 := Mixin_constructor (Str ''T'') ((\<lambda>a. None)(Make := Some (Fn 2))))"

definition ex2_fresh_heap :: heap where
  "ex2_fresh_heap = (\<lambda>x. Mixin_constructor (Str ''T'') ((\<lambda>a. None)(Get := Some (Fn 2))))
                      (10 := Mixin_constructor (Str ''T'') ((\<lambda>a. None)(Make := Some (Fn 1))))"

definition ex2_heap :: heap where
  "ex2_heap = (\<lambda>x. Mixin_constructor (Str ''T'') ((\<lambda>a. None)(Get := Some (Fn 2))))
                (10 := allowOverride no_overrides
                        (Mixin_constructor (Str ''T'') ((\<lambda>a. None)(Make := Some (Fn 1)))))"

definition ex6_group :: "string \<Rightarrow> fnid \<Rightarrow> plugin" where
  "ex6_group n f = \<lparr> name = Some n, version = None, plugin_allowOverride = None,
                     initPlugin = Some (Fn f), loadCondition = None, members = [] \<rparr>"

definition ex6_heap :: heap where
  "ex6_heap = (\<lambda>x. Mixin_constructor Undefined (\<lambda>a. None))"

definition ex6_four :: state where
  "ex6_four =
     state_of (addPlugins [ex6_group ''b'' 10, ex6_group ''10'' 20, ex6_group ''a'' 30,
                           ex6_group ''9'' 40] (ex6_heap, no_plugins))"

definition ex6_five :: state where
  "ex6_five = state_of (addPlugin (ex6_group ''01'' 50) ex6_four)"

definition ex6_registry :: compositor where
  "ex6_registry = snd (state_of (addPlugin (ex6_group ''b'' 60) ex6_five))"

definition ex6_numbered :: compositor where
  "ex6_numbered =
     snd (state_of (addPlugins [ex6_group ''2'' 20, ex6_group ''1'' 10] (ex6_heap, no_plugins)))"


section \<open>Properties of bundles\<close>

lemma accessor_cases: "a = Make \<or> a = Get \<or> a = Set \<or> a = Del"
  by (cases a) simp_all

lemma patchProperty_type [simp]: "type (patchProperty this mixin a) = type this"
  by (simp add: patchProperty_def)

lemma patchProperty_other_slot:
  "b \<noteq> a \<Longrightarrow> slot (patchProperty this mixin b) a = slot this a"
  by (simp add: patchProperty_def)

lemma patchProperty_other_flag:
  "b \<noteq> a \<Longrightarrow> writeProtectedMethods (patchProperty this mixin b) a = writeProtectedMethods this a"
  by (simp add: patchProperty_def)

lemma patchProperty_refused:
  "slot this a = Some (Fn f) \<Longrightarrow> writeProtectedMethods this a \<Longrightarrow>
   patchProperty this mixin a = this"
  by (simp add: patchProperty_def)

lemma patchProperty_keeps_protected:
  assumes "slot this a = Some (Fn f)" and "writeProtectedMethods this a"
  shows "slot (patchProperty this mixin b) a = Some (Fn f)
       \<and> writeProtectedMethods (patchProperty this mixin b) a"
proof (cases "b = a")
  case True
  with assms show ?thesis by (simp add: patchProperty_refused)
next
  case False
  with assms show ?thesis
    by (simp add: patchProperty_other_slot patchProperty_other_flag)
qed

lemma patchProperty_at_keeps_protected:
  assumes "slot (h x) a = Some (Fn f)" and "writeProtectedMethods (h x) a"
  shows "slot (patchProperty_at h this mixin b x) a = Some (Fn f)
       \<and> writeProtectedMethods (patchProperty_at h this mixin b x) a"
  using assms patchProperty_keeps_protected [of "h x" a f "h mixin" b]
  by (cases "x = this") (simp_all add: patchProperty_at_def)

lemma patchMixin_at_keeps_protected:
  assumes "slot (h x) a = Some (Fn f)" and "writeProtectedMethods (h x) a"
  shows "slot (patchMixin_at h this mixin x) a = Some (Fn f)
       \<and> writeProtectedMethods (patchMixin_at h this mixin x) a"
proof -
  let ?P = "\<lambda>k. slot (k x) a = Some (Fn f) \<and> writeProtectedMethods (k x) a"
  have step: "?P (patchProperty_at k this mixin b)" if "?P k" for k b
    using that patchProperty_at_keeps_protected [of k x a f this mixin b] by simp
  have "?P h" using assms by simp
  then have "?P (patchProperty_at h this mixin Make)" by (rule step)
  then have "?P (patchProperty_at (patchProperty_at h this mixin Make) this mixin Get)"
    by (rule step)
  then have "?P (patchProperty_at (patchProperty_at (patchProperty_at h this mixin Make)
                   this mixin Get) this mixin Set)"
    by (rule step)
  then have "?P (patchProperty_at (patchProperty_at (patchProperty_at (patchProperty_at h
                   this mixin Make) this mixin Get) this mixin Set) this mixin Del)"
    by (rule step)
  then show ?thesis by (simp add: patchMixin_at_def Let_def)
qed

lemma patchProperty_at_type [simp]: "type (patchProperty_at h this mixin a x) = type (h x)"
  by (simp add: patchProperty_at_def)

lemma patchMixin_at_type [simp]: "type (patchMixin_at h this mixin x) = type (h x)"
  by (simp add: patchMixin_at_def Let_def)


lemma allowOverride_slot [simp]: "slot (allowOverride ov this) = slot this"
  by (simp add: allowOverride_def)

lemma allowOverride_type [simp]: "type (allowOverride ov this) = type this"
  by (simp add: allowOverride_def)

lemma allowOverride_flags:
  "writeProtectedMethods (allowOverride ov this) a =
     (case a of Make \<Rightarrow> \<not> or_true (allowMake ov) | Get \<Rightarrow> \<not> or_true (allowGet ov)
      | Set \<Rightarrow> \<not> or_true (allowSet ov) | Del \<Rightarrow> \<not> or_true (allowDel ov))"
  by (cases a) (simp_all add: allowOverride_def)

lemma allowOverride_at_slot [simp]: "slot (allowOverride_at h this ov x) = slot (h x)"
  by (simp add: allowOverride_at_def)

lemma allowOverride_at_type [simp]: "type (allowOverride_at h this ov x) = type (h x)"
  by (simp add: allowOverride_at_def)

lemma patchProperty_no_source:
  "slot mixin a = None \<Longrightarrow> patchProperty this mixin a = this"
  by (simp add: patchProperty_def)

lemma refuses_protected:
  "slot this a = Some (Fn f) \<Longrightarrow> writeProtectedMethods this a \<Longrightarrow> refuses this a"
  by (simp add: refuses_def)

lemma not_refuses_unprotected: "\<not> writeProtectedMethods this a \<Longrightarrow> \<not> refuses this a"
  by (simp add: refuses_def)

lemma patchProperty_slot_same:
  "slot (patchProperty this mixin a) a =
     (if slot mixin a = None \<or> refuses this a then slot this a else slot mixin a)"
  by (simp add: patchProperty_def refuses_def)

lemma patchProperty_flag_same:
  "writeProtectedMethods (patchProperty this mixin a) a =
     (if slot mixin a = None \<or> refuses this a then writeProtectedMethods this a else True)"
  by (simp add: patchProperty_def refuses_def)

lemma patchProperty_at_other [simp]:
  "x \<noteq> this \<Longrightarrow> patchProperty_at h this mixin a x = h x"
  by (simp add: patchProperty_at_def)

lemma patchMixin_at_other [simp]:
  "x \<noteq> this \<Longrightarrow> patchMixin_at h this mixin x = h x"
  by (simp add: patchMixin_at_def Let_def)

lemma patchProperty_at_slot_other:
  "b \<noteq> a \<Longrightarrow> slot (patchProperty_at h this mixin b x) a = slot (h x) a"
  by (simp add: patchProperty_at_def patchProperty_other_slot)

lemma patchProperty_at_flag_other:
  "b \<noteq> a \<Longrightarrow>
   writeProtectedMethods (patchProperty_at h this mixin b x) a = writeProtectedMethods (h x) a"
  by (simp add: patchProperty_at_def patchProperty_other_flag)

lemma patchProperty_at_refuses_other:
  "b \<noteq> a \<Longrightarrow> refuses (patchProperty_at h this mixin b x) a = refuses (h x) a"
  by (simp add: refuses_def patchProperty_at_slot_other patchProperty_at_flag_other)

lemma patchProperty_at_slot_same:
  "slot (patchProperty_at h this mixin a this) a =
     (if slot (h mixin) a = None \<or> refuses (h this) a then slot (h this) a
      else slot (h mixin) a)"
  by (simp add: patchProperty_at_def patchProperty_slot_same)

lemma patchProperty_at_flag_same:
  "writeProtectedMethods (patchProperty_at h this mixin a this) a =
     (if slot (h mixin) a = None \<or> refuses (h this) a then writeProtectedMethods (h this) a
      else True)"
  by (simp add: patchProperty_at_def patchProperty_flag_same)

lemmas patchProperty_at_one_slot =
  patchProperty_at_slot_other patchProperty_at_flag_other patchProperty_at_refuses_other
  patchProperty_at_slot_same patchProperty_at_flag_same

lemma patchProperty_at_unchanged:
  "slot (h mixin) a = None \<or> refuses (h this) a \<Longrightarrow> patchProperty_at h this mixin a = h"
  by (auto simp add: patchProperty_at_def patchProperty_def refuses_def)

text \<open>What \<open>patchMixin\<close> does to one slot is what \<open>patchProperty\<close> does to it.\<close>

lemma patchMixin_at_slot:
  "slot (patchMixin_at h this mixin this) a =
     (if slot (h mixin) a = None \<or> refuses (h this) a then slot (h this) a
      else slot (h mixin) a)"
  by (cases a) (simp_all add: patchMixin_at_def Let_def patchProperty_at_one_slot)

lemma patchMixin_at_flag:
  "writeProtectedMethods (patchMixin_at h this mixin this) a =
     (if slot (h mixin) a = None \<or> refuses (h this) a then writeProtectedMethods (h this) a
      else True)"
  by (cases a) (simp_all add: patchMixin_at_def Let_def patchProperty_at_one_slot)


subsection \<open>Construction and the no-override law\<close>

text \<open>
  Claim C1. A bundle that the constructor has just built protects its four slots, whatever
  the initializer held, and holds the operations the initializer gave. A slot that holds
  an operation and is protected keeps both the operation and the protection through
  \<^verbatim>\<open>patchProperty\<close> on any slot and through \<^verbatim>\<open>patchMixin\<close>, from any source (the
  receiver itself included).
\<close>

theorem C1_no_override:
  "(\<forall>b. writeProtectedMethods (Mixin_constructor ty init) b)
   \<and> (init a = Some (Fn f) \<longrightarrow> slot (Mixin_constructor ty init) a = Some (Fn f))
   \<and> (slot (h this) a = Some (Fn f) \<and> writeProtectedMethods (h this) a \<longrightarrow>
        slot (patchProperty_at h this source b this) a = Some (Fn f)
      \<and> writeProtectedMethods (patchProperty_at h this source b this) a
      \<and> slot (patchMixin_at h this source this) a = Some (Fn f)
      \<and> writeProtectedMethods (patchMixin_at h this source this) a)"
  using patchProperty_at_keeps_protected [of h this a f this source b]
        patchMixin_at_keeps_protected [of h this a f this source]
  by (simp add: Mixin_constructor_def)

theorem C1_no_override_witness:
  "(let h = (\<lambda>x. Mixin_constructor (Str ''T'') ((\<lambda>a. None)(Make := Some (Fn 2))))
              (0 := Mixin_constructor (Str ''T'') ((\<lambda>a. None)(Make := Some (Fn 1))))
    in slot (h 0) Make = Some (Fn 1) \<and> writeProtectedMethods (h 0) Make
     \<and> slot (h 1) Make = Some (Fn 2)
     \<and> slot (patchProperty_at h 0 1 Make 0) Make = Some (Fn 1)
     \<and> slot (patchMixin_at h 0 1 0) Make = Some (Fn 1))"
  using C1_no_override [of "Str ''T''" "(\<lambda>a. None)(Make := Some (Fn 1))" Make 1
          "(\<lambda>x. Mixin_constructor (Str ''T'') ((\<lambda>a. None)(Make := Some (Fn 2))))
              (0 := Mixin_constructor (Str ''T'') ((\<lambda>a. None)(Make := Some (Fn 1))))"
          0 1 Make]
  by (simp add: Let_def Mixin_constructor_def)


subsection \<open>One override for each unprotection\<close>

text \<open>
  Claim C3. When \<^verbatim>\<open>patchProperty\<close> overwrites a slot (the source owns the property
  and the receiver does not refuse), the slot holds the source's value and is protected
  afterwards; when it does not overwrite, the store is as it was. So after
  \<^verbatim>\<open>allowOverride({allowGet: true})\<close> and one merge (of the slot alone, or of all
  four) from a source whose \<^verbatim>\<open>get\<close> is an operation, the receiver holds that
  operation under protection, and a second merge from any source leaves it there.
\<close>

theorem C3_single_override:
  "(slot (h source) a \<noteq> None \<and> \<not> refuses (h this) a \<longrightarrow>
        slot (patchProperty_at h this source a this) a = slot (h source) a
      \<and> writeProtectedMethods (patchProperty_at h this source a this) a)
   \<and> (slot (h source) a = None \<or> refuses (h this) a \<longrightarrow> patchProperty_at h this source a = h)
   \<and> (let h1 = allowOverride_at h this \<lparr> allowMake = None, allowGet = Some True,
                                           allowSet = None, allowDel = None \<rparr>;
           h2 = patchProperty_at h1 this source Get;
           h2' = patchMixin_at h1 this source
       in slot (h1 source) Get = Some (Fn f) \<longrightarrow>
            \<not> writeProtectedMethods (h1 this) Get
          \<and> slot (h2 this) Get = Some (Fn f) \<and> writeProtectedMethods (h2 this) Get
          \<and> slot (patchProperty_at h2 this source2 Get this) Get = Some (Fn f)
          \<and> slot (patchMixin_at h2 this source2 this) Get = Some (Fn f)
          \<and> slot (h2' this) Get = Some (Fn f) \<and> writeProtectedMethods (h2' this) Get
          \<and> slot (patchProperty_at h2' this source2 Get this) Get = Some (Fn f)
          \<and> slot (patchMixin_at h2' this source2 this) Get = Some (Fn f))"
proof -
  define h1 where "h1 = allowOverride_at h this \<lparr> allowMake = None, allowGet = Some True,
                                           allowSet = None, allowDel = None \<rparr>"
  have first: "slot (h source) a \<noteq> None \<and> \<not> refuses (h this) a \<longrightarrow>
        slot (patchProperty_at h this source a this) a = slot (h source) a
      \<and> writeProtectedMethods (patchProperty_at h this source a this) a"
    by (simp add: patchProperty_at_slot_same patchProperty_at_flag_same)
  have none: "slot (h source) a = None \<or> refuses (h this) a
                \<longrightarrow> patchProperty_at h this source a = h"
    using patchProperty_at_unchanged [of h source a this] by blast
  have unprot: "\<not> writeProtectedMethods (h1 this) Get"
    by (simp add: h1_def allowOverride_at_def allowOverride_def or_true_def)
  then have nr: "\<not> refuses (h1 this) Get" by (rule not_refuses_unprotected)
  have later: "slot (patchProperty_at k this source2 Get this) Get = Some (Fn f)
             \<and> slot (patchMixin_at k this source2 this) Get = Some (Fn f)"
    if "slot (k this) Get = Some (Fn f)" and "writeProtectedMethods (k this) Get" for k
    using that refuses_protected [of "k this" Get f]
    by (simp add: patchProperty_at_slot_same patchMixin_at_slot)
  have scen: "\<not> writeProtectedMethods (h1 this) Get
          \<and> slot (patchProperty_at h1 this source Get this) Get = Some (Fn f)
          \<and> writeProtectedMethods (patchProperty_at h1 this source Get this) Get
          \<and> slot (patchProperty_at (patchProperty_at h1 this source Get) this source2 Get this) Get
               = Some (Fn f)
          \<and> slot (patchMixin_at (patchProperty_at h1 this source Get) this source2 this) Get
               = Some (Fn f)
          \<and> slot (patchMixin_at h1 this source this) Get = Some (Fn f)
          \<and> writeProtectedMethods (patchMixin_at h1 this source this) Get
          \<and> slot (patchProperty_at (patchMixin_at h1 this source) this source2 Get this) Get
               = Some (Fn f)
          \<and> slot (patchMixin_at (patchMixin_at h1 this source) this source2 this) Get
               = Some (Fn f)"
    if src: "slot (h1 source) Get = Some (Fn f)"
  proof -
    have p: "slot (patchProperty_at h1 this source Get this) Get = Some (Fn f)"
            "writeProtectedMethods (patchProperty_at h1 this source Get this) Get"
      using src nr by (simp_all add: patchProperty_at_slot_same patchProperty_at_flag_same)
    have m: "slot (patchMixin_at h1 this source this) Get = Some (Fn f)"
            "writeProtectedMethods (patchMixin_at h1 this source this) Get"
      using src nr by (simp_all add: patchMixin_at_slot patchMixin_at_flag)
    from unprot p m later [of "patchProperty_at h1 this source Get", OF p]
      later [of "patchMixin_at h1 this source", OF m] show ?thesis by simp
  qed
  from first none scen show ?thesis
    unfolding Let_def h1_def [symmetric] by simp
qed

theorem C3_single_override_witness:
  "(let target = Mixin_constructor (Str ''T'') ((\<lambda>a. None)(Get := Some (Fn 1)));
        first = Mixin_constructor (Str ''T'') ((\<lambda>a. None)(Get := Some (Fn 2)));
        second = Mixin_constructor (Str ''T'') ((\<lambda>a. None)(Get := Some (Fn 3)));
        h = (\<lambda>x. second)(0 := target, 1 := first);
        h1 = allowOverride_at h 0 \<lparr> allowMake = None, allowGet = Some True,
                                     allowSet = None, allowDel = None \<rparr>;
        h2 = patchProperty_at h1 0 1 Get;
        h3 = patchProperty_at h2 0 2 Get
    in slot (h 0) Get = Some (Fn 1) \<and> slot (h1 1) Get = Some (Fn 2)
     \<and> slot (h1 2) Get = Some (Fn 3) \<and> \<not> refuses (h1 0) Get
     \<and> slot (h2 0) Get = Some (Fn 2) \<and> writeProtectedMethods (h2 0) Get
     \<and> refuses (h2 0) Get \<and> h3 = h2 \<and> slot (h3 0) Get = Some (Fn 2))"
  using C3_single_override [of
         "(\<lambda>x. Mixin_constructor (Str ''T'') ((\<lambda>a. None)(Get := Some (Fn 3))))
            (0 := Mixin_constructor (Str ''T'') ((\<lambda>a. None)(Get := Some (Fn 1))),
             1 := Mixin_constructor (Str ''T'') ((\<lambda>a. None)(Get := Some (Fn 2))))"
      1 Get 0 2 2]
  by (simp add: Let_def refuses_def allowOverride_at_def allowOverride_def or_true_def
        patchProperty_at_def patchProperty_def Mixin_constructor_def)


subsection \<open>A source that holds no operation\<close>

text \<open>
  Claim C4 says that a merge from a source whose slot holds no operation changes neither
  the receiver's operation nor its flag. Every bundle owns its four slots from
  construction on, and a slot without operation holds \<^verbatim>\<open>null\<close>, so the first guard
  of \<^verbatim>\<open>patchProperty\<close> never fires for a bundle and \<^verbatim>\<open>null\<close> is copied like
  an operation. In \<open>ex4_heap\<close> the receiver, at address 0, holds an operation for
  \<^verbatim>\<open>get\<close> and was unprotected; the source, at address 1, was built without
  operations. After the merge, of the slot alone or of all four, the receiver's operation
  is gone and the slot is protected.
\<close>

theorem C4_null_source_overwrites:
  "slot (ex4_heap 0) Get = Some (Fn 1) \<and> \<not> writeProtectedMethods (ex4_heap 0) Get
   \<and> slot (ex4_heap 1) Get = Some Null
   \<and> slot (patchProperty_at ex4_heap 0 1 Get 0) Get = Some Null
   \<and> writeProtectedMethods (patchProperty_at ex4_heap 0 1 Get 0) Get
   \<and> slot (patchMixin_at ex4_heap 0 1 0) Get = Some Null
   \<and> writeProtectedMethods (patchMixin_at ex4_heap 0 1 0) Get"
  by (simp add: ex4_heap_def patchMixin_at_slot patchMixin_at_flag patchProperty_at_slot_same
        patchProperty_at_flag_same refuses_def allowOverride_flags
        Mixin_constructor_def no_overrides_def or_true_def)


subsection \<open>Unprotecting\<close>

text \<open>
  Claim C8. \<^verbatim>\<open>allowOverride\<close> sets each of the four flags to the negation of the flag
  it is given, a missing key counts as \<^verbatim>\<open>true\<close>, and nothing else of the bundle
  changes. So \<^verbatim>\<open>allowOverride({allowGet: true})\<close> unprotects all four slots, and so
  does the call without argument.
\<close>

theorem C8_allowOverride_negates_flags:
  "writeProtectedMethods (allowOverride ov this) Make = (\<not> or_true (allowMake ov))
   \<and> writeProtectedMethods (allowOverride ov this) Get = (\<not> or_true (allowGet ov))
   \<and> writeProtectedMethods (allowOverride ov this) Set = (\<not> or_true (allowSet ov))
   \<and> writeProtectedMethods (allowOverride ov this) Del = (\<not> or_true (allowDel ov))
   \<and> or_true None \<and> or_true (Some flag) = flag
   \<and> slot (allowOverride ov this) = slot this
   \<and> type (allowOverride ov this) = type this
   \<and> (\<forall>a. \<not> writeProtectedMethods
              (allowOverride \<lparr> allowMake = None, allowGet = Some True,
                               allowSet = None, allowDel = None \<rparr> this) a)
   \<and> (\<forall>a. \<not> writeProtectedMethods (allowOverride no_overrides this) a)"
  by (simp add: allowOverride_flags or_true_def no_overrides_def split: accessor.split)



section \<open>Properties of contribution groups\<close>

lemma set_for_in_order [simp]: "set (for_in_order props) = set props"
  by (auto simp add: for_in_order_def)

lemma allowOverride_twice [simp]:
  "allowOverride ov (allowOverride ov this) = allowOverride ov this"
  by (simp add: allowOverride_def)


lemma allowOverride_none_flags [simp]:
  "\<not> writeProtectedMethods (allowOverride no_overrides this) a"
  by (simp add: allowOverride_flags no_overrides_def or_true_def split: accessor.split)




section \<open>Properties of the registry\<close>

lemma patch_each_type [simp]: "type (patch_each h mixin xs x) = type (h x)"
  by (induction xs arbitrary: h) simp_all

lemma patch_each_keeps_protected:
  assumes "slot (h x) a = Some (Fn f)" and "writeProtectedMethods (h x) a"
  shows "slot (patch_each h mixin xs x) a = Some (Fn f)
       \<and> writeProtectedMethods (patch_each h mixin xs x) a"
  using assms
proof (induction xs arbitrary: h)
  case Nil
  then show ?case by simp
next
  case (Cons y ys)
  let ?k = "patchMixin_at (patchMixin_at h mixin y) y mixin"
  from Cons.prems patchMixin_at_keeps_protected [of h x a f mixin y]
  have "slot (patchMixin_at h mixin y x) a = Some (Fn f)"
       "writeProtectedMethods (patchMixin_at h mixin y x) a"
    by simp_all
  with patchMixin_at_keeps_protected [of "patchMixin_at h mixin y" x a f y mixin]
  have "slot (?k x) a = Some (Fn f)" "writeProtectedMethods (?k x) a"
    by simp_all
  then show ?case using Cons.IH [of ?k] by simp
qed

lemma addMixin_missing_type:
  "type (fst s mixin) = None \<Longrightarrow> addMixin mixin s = Threw Missing_type s"
  by (simp add: addMixin_def Let_def)

lemma addMixin_threw_state: "addMixin mixin s = Threw e s' \<Longrightarrow> s' = s"
  by (auto simp add: addMixin_def Let_def split: option.splits if_splits)

lemma addMixin_threw_missing_iff:
  "(\<exists>s'. addMixin mixin s = Threw Missing_type s') \<longleftrightarrow> type (fst s mixin) = None"
  by (auto simp add: addMixin_def Let_def split: option.splits if_splits)

lemma addMixin_returned:
  assumes "type (fst s mixin) = Some ty"
    and "mixins (snd s) (property_key ty) \<noteq> None
         \<or> property_key ty \<notin> set object_prototype_names"
  shows "addMixin mixin s =
           Returned (patch_each (fst s) mixin (registered_list (snd s) (property_key ty)),
                     (snd s)\<lparr> mixins := (mixins (snd s))
                        (property_key ty :=
                           Some (registered_list (snd s) (property_key ty) @ [mixin])) \<rparr>)"
  using assms
  by (auto simp add: addMixin_def Let_def registered_list_def split: option.splits)

lemma addMixin_cases:
  obtains (missing) "type (fst s mixin) = None" "addMixin mixin s = Threw Missing_type s"
  | (inherited) ty where "type (fst s mixin) = Some ty"
      "mixins (snd s) (property_key ty) = None"
      "property_key ty \<in> set object_prototype_names"
      "addMixin mixin s = Threw Not_iterable s"
  | (added) ty where "type (fst s mixin) = Some ty"
      "addMixin mixin s =
           Returned (patch_each (fst s) mixin (registered_list (snd s) (property_key ty)),
                     (snd s)\<lparr> mixins := (mixins (snd s))
                        (property_key ty :=
                           Some (registered_list (snd s) (property_key ty) @ [mixin])) \<rparr>)"
proof (cases "type (fst s mixin)")
  case None
  then show ?thesis using missing addMixin_missing_type by blast
next
  case (Some ty)
  show ?thesis
  proof (cases "mixins (snd s) (property_key ty) \<noteq> None
         \<or> property_key ty \<notin> set object_prototype_names")
    case True
    with Some added addMixin_returned show ?thesis by blast
  next
    case False
    with Some have "addMixin mixin s = Threw Not_iterable s"
      by (simp add: addMixin_def Let_def)
    with Some False inherited show ?thesis by blast
  qed
qed

text \<open>What every call of \<open>addMixin\<close> keeps, whether it returns or throws.\<close>

lemma addMixin_type [simp]: "type (fst (state_of (addMixin mixin s)) x) = type (fst s x)"
  by (cases mixin s rule: addMixin_cases) simp_all

lemma addMixin_plugins [simp]: "plugins (snd (state_of (addMixin mixin s))) = plugins (snd s)"
  by (cases mixin s rule: addMixin_cases) simp_all

lemma addMixin_keeps_protected:
  assumes "slot (fst s x) a = Some (Fn f)" and "writeProtectedMethods (fst s x) a"
  shows "slot (fst (state_of (addMixin mixin s)) x) a = Some (Fn f)
       \<and> writeProtectedMethods (fst (state_of (addMixin mixin s)) x) a"
  using assms by (cases mixin s rule: addMixin_cases) (simp_all add: patch_each_keeps_protected)

lemma addMixin_keeps_registered:
  "registered_under (snd s) key x \<Longrightarrow> registered_under (snd (state_of (addMixin mixin s))) key x"
  by (cases mixin s rule: addMixin_cases)
     (auto simp add: registered_under_def registered_list_def split: option.splits)

lemma addMixin_registers:
  assumes "addMixin mixin s = Returned s'" and "type (fst s mixin) = Some ty"
  shows "registered_under (snd s') (property_key ty) mixin"
  using assms by (cases mixin s rule: addMixin_cases) (auto simp add: registered_under_def)

lemma addMixin_well_indexed:
  assumes "well_indexed s"
  shows "well_indexed (state_of (addMixin mixin s))"
proof (cases mixin s rule: addMixin_cases)
  case missing
  with assms show ?thesis by simp
next
  case (inherited ty)
  with assms show ?thesis by simp
next
  case (added ty)
  show ?thesis
    unfolding well_indexed_def
  proof (intro allI impI)
    fix key a
    assume r: "registered_under (snd (state_of (addMixin mixin s))) key a"
    show "case type (fst (state_of (addMixin mixin s)) a) of None \<Rightarrow> False
          | Some ty \<Rightarrow> property_key ty = key"
    proof (cases "registered_under (snd s) key a")
      case True
      with assms show ?thesis by (simp add: well_indexed_def)
    next
      case False
      with r added have "a = mixin \<and> key = property_key ty"
        by (auto simp add: registered_under_def registered_list_def
              split: option.splits if_splits)
      with added show ?thesis by simp
    qed
  qed
qed


lemma addMixins_preserves:
  assumes step: "\<And>mixin s. P s \<Longrightarrow> P (state_of (addMixin mixin s))" and "P s"
  shows "P (state_of (addMixins ms s))"
  using \<open>P s\<close>
proof (induction ms arbitrary: s)
  case Nil
  then show ?case by simp
next
  case (Cons m ms)
  from Cons.prems have P1: "P (state_of (addMixin m s))" by (rule step)
  show ?case
  proof (cases "addMixin m s")
    case (Returned s1)
    with P1 Cons.IH [of s1] show ?thesis by simp
  next
    case (Threw e s1)
    with P1 show ?thesis by simp
  qed
qed

lemma addMixins_append_threw:
  assumes "addMixins pre s = Returned s1" and "addMixin mixin s1 = Threw e s1"
  shows "addMixins (pre @ mixin # post) s = Threw e s1"
  using assms
proof (induction pre arbitrary: s)
  case Nil
  then show ?case by simp
next
  case (Cons m ms)
  then show ?case by (cases "addMixin m s") simp_all
qed

lemma addMixins_threw:
  assumes "addMixins ms s = Threw e s'"
  shows "\<exists>pre mixin post. ms = pre @ mixin # post \<and> addMixins pre s = Returned s'
           \<and> addMixin mixin s' = Threw e s'"
  using assms
proof (induction ms arbitrary: s)
  case Nil
  then show ?case by simp
next
  case (Cons m ms)
  show ?case
  proof (cases "addMixin m s")
    case (Threw e1 s1)
    with Cons.prems have "e1 = e" "s1 = s'" by simp_all
    moreover from Threw have "s1 = s" by (rule addMixin_threw_state)
    ultimately have "m # ms = [] @ m # ms \<and> addMixins [] s = Returned s'
        \<and> addMixin m s' = Threw e s'"
      using Threw by simp
    then show ?thesis by blast
  next
    case (Returned s1)
    with Cons.prems have "addMixins ms s1 = Threw e s'" by simp
    from Cons.IH [OF this] obtain pre mixin post where
      "ms = pre @ mixin # post" "addMixins pre s1 = Returned s'" "addMixin mixin s' = Threw e s'"
      by blast
    with Returned have "m # ms = (m # pre) @ mixin # post \<and> addMixins (m # pre) s = Returned s'
        \<and> addMixin mixin s' = Threw e s'"
      by simp
    then show ?thesis by blast
  qed
qed

lemma addMixins_type [simp]: "type (fst (state_of (addMixins ms s)) x) = type (fst s x)"
  by (rule addMixins_preserves [where P = "\<lambda>t. type (fst t x) = type (fst s x)"]) simp_all

lemma addMixins_plugins [simp]: "plugins (snd (state_of (addMixins ms s))) = plugins (snd s)"
  by (rule addMixins_preserves [where P = "\<lambda>t. plugins (snd t) = plugins (snd s)"]) simp_all

lemma addMixins_keeps_protected:
  assumes "slot (fst s x) a = Some (Fn f)" and "writeProtectedMethods (fst s x) a"
  shows "slot (fst (state_of (addMixins ms s)) x) a = Some (Fn f)
       \<and> writeProtectedMethods (fst (state_of (addMixins ms s)) x) a"
  by (rule addMixins_preserves
        [where P = "\<lambda>t. slot (fst t x) a = Some (Fn f) \<and> writeProtectedMethods (fst t x) a"])
     (simp_all add: addMixin_keeps_protected assms)

lemma addMixins_keeps_registered:
  "registered_under (snd s) key x \<Longrightarrow> registered_under (snd (state_of (addMixins ms s))) key x"
  by (rule addMixins_preserves [where P = "\<lambda>t. registered_under (snd t) key x"])
     (simp_all add: addMixin_keeps_registered)

lemma addMixins_well_indexed:
  "well_indexed s \<Longrightarrow> well_indexed (state_of (addMixins ms s))"
  by (rule addMixins_preserves [where P = well_indexed]) (simp_all add: addMixin_well_indexed)

lemma addMixins_registers:
  assumes "addMixins ms s = Returned s'" and "m \<in> set ms"
  shows "case type (fst s m) of None \<Rightarrow> False
         | Some ty \<Rightarrow> registered_under (snd s') (property_key ty) m"
  using assms
proof (induction ms arbitrary: s)
  case Nil
  then show ?case by simp
next
  case (Cons x xs)
  from Cons.prems obtain s1 where s1: "addMixin x s = Returned s1" "addMixins xs s1 = Returned s'"
    by (cases "addMixin x s") simp_all
  from s1(1) have ty1: "type (fst s1 y) = type (fst s y)" for y
    using addMixin_type [of x s y] by simp
  show ?case
  proof (cases "m = x")
    case True
    from s1(1) obtain ty where ty: "type (fst s x) = Some ty"
      by (cases x s rule: addMixin_cases) simp_all
    with s1(1) have "registered_under (snd s1) (property_key ty) x"
      by (rule addMixin_registers)
    then have "registered_under (snd (state_of (addMixins xs s1))) (property_key ty) x"
      by (rule addMixins_keeps_registered)
    with s1(2) ty True show ?thesis by simp
  next
    case False
    with Cons.prems have "m \<in> set xs" by simp
    from Cons.IH [OF s1(2) this] ty1 show ?thesis by simp
  qed
qed

lemma mixins_store_plugin [simp]: "mixins (store_plugin c n g) = mixins c"
  by (simp add: store_plugin_def)

lemma well_indexed_plugins [simp]:
  "well_indexed (h, store_plugin c n g) = well_indexed (h, c)"
  by (simp add: well_indexed_def registered_under_def)

lemma well_indexed_empty: "well_indexed (h, no_plugins)"
  by (simp add: well_indexed_def registered_under_def no_plugins_def)

lemma not_registered_without_type:
  assumes "well_indexed s" and "type (fst s mixin) = None"
  shows "\<not> registered_under (snd s) key mixin"
proof
  assume "registered_under (snd s) key mixin"
  with assms(1) have "case type (fst s mixin) of None \<Rightarrow> False
                      | Some ty \<Rightarrow> property_key ty = key"
    unfolding well_indexed_def by blast
  with assms(2) show False by simp
qed

lemma addPlugin_preserves:
  assumes step: "\<And>mixin s. P s \<Longrightarrow> P (state_of (addMixin mixin s))"
    and store: "\<And>h c n g. P (h, c) \<Longrightarrow> P (h, store_plugin c n g)"
    and "P s"
  shows "P (state_of (addPlugin plugin s))"
proof (cases "loadCondition plugin = Some (Answers False)")
  case True
  with \<open>P s\<close> show ?thesis by (simp add: addPlugin_def)
next
  case False
  from \<open>P s\<close> have "P (fst s, snd s)" by simp
  then have "P (fst s, store_plugin (snd s)
      (case name plugin of None \<Rightarrow> ''Untitled Plugin'' | Some n \<Rightarrow> n) plugin)"
    by (rule store)
  with step have "P (state_of (addMixins (map snd (for_in_order (members plugin)))
     (fst s, store_plugin (snd s)
      (case name plugin of None \<Rightarrow> ''Untitled Plugin'' | Some n \<Rightarrow> n) plugin)))"
    by (rule addMixins_preserves)
  with False show ?thesis by (simp add: addPlugin_def Let_def)
qed

lemma addPlugins_preserves:
  assumes step: "\<And>mixin s. P s \<Longrightarrow> P (state_of (addMixin mixin s))"
    and store: "\<And>h c n g. P (h, c) \<Longrightarrow> P (h, store_plugin c n g)"
    and "P s"
  shows "P (state_of (addPlugins gs s))"
  using \<open>P s\<close>
proof (induction gs arbitrary: s)
  case Nil
  then show ?case by simp
next
  case (Cons g gs)
  have P1: "P (state_of (addPlugin g s))"
    using Cons.prems addPlugin_preserves [of P s g, OF step store] by simp
  show ?case
  proof (cases "addPlugin g s")
    case (Returned s1)
    with P1 Cons.IH [of s1] show ?thesis by simp
  next
    case (Threw e s1)
    with P1 show ?thesis by simp
  qed
qed

lemma perform_preserves:
  assumes step: "\<And>mixin s. P s \<Longrightarrow> P (state_of (addMixin mixin s))"
    and store: "\<And>h c n g. P (h, c) \<Longrightarrow> P (h, store_plugin c n g)"
    and "P s"
  shows "P (fold perform calls s)"
  using \<open>P s\<close>
proof (induction calls arbitrary: s)
  case Nil
  then show ?case by simp
next
  case (Cons c cs)
  have "P (perform c s)"
  proof (cases c)
    case (Add_mixin m)
    with Cons.prems step show ?thesis by simp
  next
    case (Add_plugin p)
    with Cons.prems addPlugin_preserves [of P s p, OF step store] show ?thesis by simp
  qed
  then show ?case using Cons.IH by simp
qed

lemma registered_under_plugins [simp]:
  "registered_under (store_plugin c n g) key x = registered_under c key x"
  by (simp add: registered_under_def)

lemma perform_keeps_protected:
  assumes "slot (fst s x) a = Some (Fn f)" and "writeProtectedMethods (fst s x) a"
  shows "slot (fst (fold perform calls s) x) a = Some (Fn f)
       \<and> writeProtectedMethods (fst (fold perform calls s) x) a"
  by (rule perform_preserves
        [where P = "\<lambda>t. slot (fst t x) a = Some (Fn f) \<and> writeProtectedMethods (fst t x) a"])
     (simp_all add: addMixin_keeps_protected assms)

lemma perform_keeps_registered:
  "registered_under (snd s) key x \<Longrightarrow> registered_under (snd (fold perform calls s)) key x"
  by (rule perform_preserves [where P = "\<lambda>t. registered_under (snd t) key x"])
     (simp_all add: addMixin_keeps_registered)

lemma perform_type [simp]: "type (fst (fold perform calls s) x) = type (fst s x)"
  by (rule perform_preserves [where P = "\<lambda>t. type (fst t x) = type (fst s x)"]) simp_all

lemma perform_well_indexed: "well_indexed s \<Longrightarrow> well_indexed (fold perform calls s)"
  by (rule perform_preserves [where P = well_indexed]) (simp_all add: addMixin_well_indexed)

text \<open>Every registry that an application can build is well indexed.\<close>

lemma constructor_well_indexed:
  "well_indexed (state_of (MixinCompositor_constructor gs h))"
  unfolding MixinCompositor_constructor_def
  by (rule addPlugins_preserves [where P = well_indexed])
     (simp_all add: addMixin_well_indexed well_indexed_empty)

lemma application_well_indexed:
  "well_indexed (fold perform calls (state_of (MixinCompositor_constructor gs h)))"
  using constructor_well_indexed by (rule perform_well_indexed)

lemma addMixin_registers_typed:
  assumes "type (fst s mixin) = Some ty" and "property_key ty \<notin> set object_prototype_names"
  shows "registered_under (snd (state_of (addMixin mixin s))) (property_key ty) mixin"
  using assms addMixin_returned [of s mixin ty]
  by (simp add: registered_under_def)

subsection \<open>A bundle without a type\<close>

text \<open>
  Claim C5. \<^verbatim>\<open>addMixin\<close> throws the error for a missing type when the object has no
  \<^verbatim>\<open>type\<close> property, and leaves the registry as it was; in a well indexed registry
  such an object stands under no key. When the object is a member of a group, the call of
  \<^verbatim>\<open>addPlugin\<close> throws the same error from the state that the members enumerated
  before it have left: each of them is registered under the key of its type, and the
  object still stands under no key.
\<close>

theorem C5_missing_type_no_rollback:
  assumes "type (fst s mixin) = None" and "well_indexed s"
  shows "addMixin mixin s = Threw Missing_type s
       \<and> (\<forall>key. \<not> registered_under (snd s) key mixin)
       \<and> (loadCondition plugin \<noteq> Some (Answers False)
          \<and> for_in_order (members plugin) = pre @ (n, mixin) # post
          \<and> addMixins (map snd pre)
               (fst s, store_plugin (snd s)
                  (case name plugin of None \<Rightarrow> ''Untitled Plugin'' | Some n \<Rightarrow> n) plugin)
              = Returned s1
          \<longrightarrow> addPlugin plugin s = Threw Missing_type s1
            \<and> (\<forall>key. \<not> registered_under (snd s1) key mixin)
            \<and> (\<forall>p \<in> set pre. case type (fst s (snd p)) of None \<Rightarrow> False
                   | Some ty \<Rightarrow> registered_under (snd s1) (property_key ty) (snd p)))"
proof -
  let ?s0 = "(fst s, store_plugin (snd s)
                  (case name plugin of None \<Rightarrow> ''Untitled Plugin'' | Some n \<Rightarrow> n) plugin)"
  have one: "addMixin mixin s = Threw Missing_type s"
    using assms(1) by (rule addMixin_missing_type)
  have two: "\<not> registered_under (snd s) key mixin" for key
    using assms(2,1) by (rule not_registered_without_type)
  have three: "addPlugin plugin s = Threw Missing_type s1
            \<and> (\<forall>key. \<not> registered_under (snd s1) key mixin)
            \<and> (\<forall>p \<in> set pre. case type (fst s (snd p)) of None \<Rightarrow> False
                   | Some ty \<Rightarrow> registered_under (snd s1) (property_key ty) (snd p))"
    if lc: "loadCondition plugin \<noteq> Some (Answers False)"
      and ms: "for_in_order (members plugin) = pre @ (n, mixin) # post"
      and pre: "addMixins (map snd pre) ?s0 = Returned s1"
  proof -
    from pre have s1: "s1 = state_of (addMixins (map snd pre) ?s0)" by simp
    have ty1: "type (fst s1 x) = type (fst s x)" for x
      unfolding s1 by simp
    from assms(2) have "well_indexed ?s0"
      by simp
    then have wi1: "well_indexed s1"
      unfolding s1 by (rule addMixins_well_indexed)
    from assms(1) ty1 have none1: "type (fst s1 mixin) = None" by simp
    then have "addMixin mixin s1 = Threw Missing_type s1" by (rule addMixin_missing_type)
    with pre have "addMixins (map snd pre @ mixin # map snd post) ?s0 = Threw Missing_type s1"
      by (rule addMixins_append_threw)
    with lc ms have a: "addPlugin plugin s = Threw Missing_type s1"
      by (simp add: addPlugin_def Let_def)
    have b: "\<not> registered_under (snd s1) key mixin" for key
      using wi1 none1 by (rule not_registered_without_type)
    have c: "case type (fst s (snd p)) of None \<Rightarrow> False
                   | Some ty \<Rightarrow> registered_under (snd s1) (property_key ty) (snd p)"
      if "p \<in> set pre" for p
    proof -
      from that have "snd p \<in> set (map snd pre)" by simp
      with pre have "case type (fst ?s0 (snd p)) of None \<Rightarrow> False
         | Some ty \<Rightarrow> registered_under (snd s1) (property_key ty) (snd p)"
        by (rule addMixins_registers)
      then show ?thesis by simp
    qed
    from a b c show ?thesis by blast
  qed
  from one two three show ?thesis by blast
qed

lemma ex_names:
  "\<not> is_array_index ''A''" "\<not> is_array_index ''B''" "\<not> is_array_index ''C''"
  by (simp_all add: is_array_index_def is_digit_def)

theorem C5_missing_type_no_rollback_witness:
  "type (ex5_heap 1) = None
   \<and> well_indexed (ex5_heap, no_plugins)
   \<and> addMixin 1 (ex5_heap, no_plugins) = Threw Missing_type (ex5_heap, no_plugins)
   \<and> for_in_order (members ex5_plugin) = [(''A'', 0)] @ (''B'', 1) # [(''C'', 2)]
   \<and> (case addPlugin ex5_plugin (ex5_heap, no_plugins) of
        Returned s' \<Rightarrow> False
      | Threw e s' \<Rightarrow> e = Missing_type
          \<and> map fst (plugins (snd s')) = [''P'']
          \<and> mixins (snd s') ''T'' = Some [0]
          \<and> registered_under (snd s') ''T'' 0
          \<and> (\<forall>key. \<not> registered_under (snd s') key 1))"
proof -
  let ?s = "(ex5_heap, no_plugins)"
  let ?sq = "(ex5_heap, no_plugins\<lparr> plugins := [(''P'', ex5_plugin)],
                                     mixins := (\<lambda>k. None)(''T'' := Some [0]) \<rparr>)"
  have t: "type (fst ?s 1) = None" by (simp add: ex5_heap_def)
  have w: "well_indexed ?s" by (simp add: well_indexed_empty)
  have lc: "loadCondition ex5_plugin \<noteq> Some (Answers False)" by (simp add: ex5_plugin_def)
  have ms: "for_in_order (members ex5_plugin) = [(''A'', 0)] @ (''B'', 1) # [(''C'', 2)]"
    by (simp add: ex5_plugin_def for_in_order_def ex_names)
  have pre: "addMixins (map snd [(''A'', 0::nat)])
               (fst ?s, store_plugin (snd ?s)
                  (case name ex5_plugin of None \<Rightarrow> ''Untitled Plugin'' | Some n \<Rightarrow> n)
                  ex5_plugin) = Returned ?sq"
    by (simp add: addMixin_def Let_def ex5_heap_def ex5_plugin_def no_plugins_def
          store_plugin_def Mixin_constructor_def property_key_def object_prototype_names_def)
  from C5_missing_type_no_rollback [OF t w, of ex5_plugin "[(''A'', 0)]" "''B''"
         "[(''C'', 2)]" ?sq] lc ms pre
  have "addMixin 1 ?s = Threw Missing_type ?s"
    and "addPlugin ex5_plugin ?s = Threw Missing_type ?sq"
    and "\<forall>key. \<not> registered_under (snd ?sq) key 1"
    by simp_all
  with t w ms show ?thesis
    by (simp add: registered_under_def no_plugins_def)
qed


subsection \<open>A bundle whose type is \<open>undefined\<close>\<close>

text \<open>What the loop of \<^verbatim>\<open>addMixin\<close> leaves in each bundle.\<close>

lemma patch_each_append:
  "patch_each h mixin (xs @ ys) = patch_each (patch_each h mixin xs) mixin ys"
  by (induction xs arbitrary: h) simp_all

lemma patch_each_other:
  "x \<noteq> mixin \<Longrightarrow> x \<notin> set xs \<Longrightarrow> patch_each h mixin xs x = h x"
  by (induction xs arbitrary: h) simp_all

lemma offered_cong:
  "(\<And>x. x \<in> set xs \<Longrightarrow> slot (k x) acc = slot (h x) acc) \<Longrightarrow> offered k xs acc = offered h xs acc"
  by (induction xs) (auto split: option.splits crud.splits)

lemma offered_first_operation:
  assumes "\<forall>x\<in>set pre. slot (h x) acc = None \<or> slot (h x) acc = Some Null"
    and "slot (h b) acc = Some (Fn f)"
  shows "offered h (pre @ b # post) acc = Some (Fn f)"
  using assms by (induction pre) (auto split: option.splits crud.splits)

text \<open>One round of the loop, seen from one slot.\<close>

lemma round_new:
  assumes "b \<noteq> mixin"
  shows "slot (patchMixin_at (patchMixin_at h mixin b) b mixin mixin) acc =
           (if slot (h b) acc = None \<or> refuses (h mixin) acc then slot (h mixin) acc
            else slot (h b) acc)"
    and "writeProtectedMethods (patchMixin_at (patchMixin_at h mixin b) b mixin mixin) acc =
           (if slot (h b) acc = None \<or> refuses (h mixin) acc
            then writeProtectedMethods (h mixin) acc else True)"
  using assms by (simp_all add: patchMixin_at_slot patchMixin_at_flag)

lemma round_registered:
  assumes "b \<noteq> mixin"
  shows "slot (patchMixin_at (patchMixin_at h mixin b) b mixin b) acc =
           (if slot (patchMixin_at h mixin b mixin) acc = None \<or> refuses (h b) acc
            then slot (h b) acc
            else slot (patchMixin_at h mixin b mixin) acc)"
  using assms by (simp add: patchMixin_at_slot)

lemma round_other:
  "x \<noteq> mixin \<Longrightarrow> x \<noteq> b \<Longrightarrow> patchMixin_at (patchMixin_at h mixin b) b mixin x = h x"
  by simp

lemma new_bundle_takes:
  assumes "distinct (mixin # xs)"
  shows "slot (patch_each h mixin xs mixin) acc = taken h mixin xs acc
       \<and> writeProtectedMethods (patch_each h mixin xs mixin) acc =
           (if refuses (h mixin) acc \<or> offered h xs acc = None
            then writeProtectedMethods (h mixin) acc else True)"
  using assms
proof (induction xs arbitrary: h)
  case Nil
  show ?case by (simp add: taken_def)
next
  case (Cons b rest)
  let ?k = "patchMixin_at (patchMixin_at h mixin b) b mixin"
  from Cons.prems have ne: "b \<noteq> mixin" and d: "distinct (mixin # rest)"
    and nb: "b \<notin> set rest" and nm: "mixin \<notin> set rest"
    by auto
  have off: "offered ?k rest acc = offered h rest acc"
  proof (rule offered_cong)
    fix x assume "x \<in> set rest"
    with nb nm have "x \<noteq> mixin" "x \<noteq> b" by auto
    then show "slot (?k x) acc = slot (h x) acc" by (simp add: round_other)
  qed
  note IH = Cons.IH [OF d, of ?k]
  note new = round_new [OF ne, of h acc]
  show ?case
  proof (cases "refuses (h mixin) acc")
    case True
    with new have "slot (?k mixin) acc = slot (h mixin) acc"
      "writeProtectedMethods (?k mixin) acc = writeProtectedMethods (h mixin) acc"
      by simp_all
    with True have "refuses (?k mixin) acc" by (simp add: refuses_def)
    with IH True \<open>slot (?k mixin) acc = slot (h mixin) acc\<close>
      \<open>writeProtectedMethods (?k mixin) acc = writeProtectedMethods (h mixin) acc\<close>
    show ?thesis by (simp add: taken_def)
  next
    case False
    show ?thesis
    proof (cases "slot (h b) acc")
      case None
      with new have same: "slot (?k mixin) acc = slot (h mixin) acc"
        "writeProtectedMethods (?k mixin) acc = writeProtectedMethods (h mixin) acc"
        by simp_all
      with False have "\<not> refuses (?k mixin) acc" by (simp add: refuses_def)
      with IH False None same off show ?thesis
        by (simp add: taken_def split: option.splits)
    next
      case (Some v)
      with new False have got: "slot (?k mixin) acc = Some v"
        "writeProtectedMethods (?k mixin) acc"
        by simp_all
      show ?thesis
      proof (cases v)
        case Null
        with got have "\<not> refuses (?k mixin) acc" by (simp add: refuses_def)
        with IH False Some Null got off show ?thesis
          by (simp add: taken_def split: option.splits)
      next
        case (Fn f)
        with got have "refuses (?k mixin) acc" by (simp add: refuses_def)
        with IH False Some Fn got off show ?thesis
          by (simp add: taken_def)
      qed
    qed
  qed
qed

lemma registered_bundle_takes:
  assumes "distinct (mixin # pre @ b # post)"
  shows "slot (patch_each h mixin (pre @ b # post) b) acc =
           (if refuses (h b) acc then slot (h b) acc
            else case taken h mixin (pre @ [b]) acc of
                   None \<Rightarrow> slot (h b) acc
                 | Some v \<Rightarrow> Some v)"
proof -
  let ?hp = "patch_each h mixin pre"
  let ?k = "patchMixin_at (patchMixin_at ?hp mixin b) b mixin"
  from assms have ne: "b \<noteq> mixin" and bp: "b \<notin> set pre" and bq: "b \<notin> set post"
    and d: "distinct (mixin # pre @ [b])"
    by auto
  have all: "patch_each h mixin (pre @ b # post) = patch_each ?k mixin post"
    by (simp add: patch_each_append)
  have upto: "patch_each h mixin (pre @ [b]) = ?k"
    by (simp add: patch_each_append)
  have hb: "?hp b = h b"
    using ne bp by (rule patch_each_other)
  have "slot (patch_each ?k mixin post b) acc = slot (?k b) acc"
    using ne bq by (simp add: patch_each_other)
  also have "\<dots> = (if slot (patchMixin_at ?hp mixin b mixin) acc = None \<or> refuses (?hp b) acc
            then slot (?hp b) acc
            else slot (patchMixin_at ?hp mixin b mixin) acc)"
    using ne by (rule round_registered)
  also have "patchMixin_at ?hp mixin b mixin = ?k mixin"
    using ne by simp
  also have "slot (?k mixin) acc = taken h mixin (pre @ [b]) acc"
    using new_bundle_takes [OF d, of h acc] by (simp add: upto)
  finally show ?thesis
    by (simp add: all hb split: option.splits)
qed

lemma new_bundle_gives:
  assumes "refuses (h mixin) acc" and "b \<in> set xs" and "\<not> refuses (h b) acc"
  shows "slot (patch_each h mixin xs b) acc = slot (h mixin) acc"
  using assms
proof (induction xs arbitrary: h)
  case Nil
  then show ?case by simp
next
  case (Cons x rest)
  let ?k = "patchMixin_at (patchMixin_at h mixin x) x mixin"
  from Cons.prems have ne: "b \<noteq> mixin" by auto
  from Cons.prems(1) obtain f where op: "slot (h mixin) acc = Some (Fn f)"
    and fl: "writeProtectedMethods (h mixin) acc"
    by (auto simp add: refuses_def split: option.splits) (metis crud.exhaust)
  show ?case
  proof (cases "x = b")
    case True
    let ?kb = "patchMixin_at (patchMixin_at h mixin b) b mixin"
    from ne have "slot (?kb b) acc =
           (if slot (patchMixin_at h mixin b mixin) acc = None \<or> refuses (h b) acc
            then slot (h b) acc
            else slot (patchMixin_at h mixin b mixin) acc)"
      by (rule round_registered)
    moreover have taken: "slot (patchMixin_at h mixin b mixin) acc = Some (Fn f)"
      using Cons.prems(1) op by (simp add: patchMixin_at_slot)
    ultimately have got: "slot (?kb b) acc = Some (Fn f)"
      using Cons.prems(3) by simp
    have "writeProtectedMethods (?kb b) acc"
      using Cons.prems(3) ne taken by (simp add: patchMixin_at_flag)
    with got have "slot (patch_each ?kb mixin rest b) acc = Some (Fn f)"
      by (simp add: patch_each_keeps_protected)
    with True op show ?thesis by simp
  next
    case False
    with Cons.prems have mem: "b \<in> set rest" by simp
    from False ne have same: "?k b = h b" by simp
    have km: "slot (?k mixin) acc = Some (Fn f)" "writeProtectedMethods (?k mixin) acc"
      using op fl patch_each_keeps_protected [of h mixin acc f mixin "[x]"] by simp_all
    then have r: "refuses (?k mixin) acc" by (simp add: refuses_def)
    from same Cons.prems(3) have nr: "\<not> refuses (?k b) acc" by simp
    from r mem nr have "slot (patch_each ?k mixin rest b) acc = slot (?k mixin) acc"
      by (rule Cons.IH)
    with km op show ?thesis by simp
  qed
qed

text \<open>
  Claim C10. A bundle built without a type argument owns a \<^verbatim>\<open>type\<close> property that
  holds \<^verbatim>\<open>undefined\<close>. \<^verbatim>\<open>addMixin\<close> returns for it: it merges the bundle in both
  directions with every bundle registered under the key \<^verbatim>\<open>"undefined"\<close> and appends
  it there. The error for a missing type is thrown for the objects without a
  \<^verbatim>\<open>type\<close> property and for no others.

  The merge, bundle by bundle, where no bundle stands twice under the key and the new one
  does not stand there yet: the new bundle holds in each slot what \<open>taken\<close> says; every
  registered bundle keeps the slots it refuses to change and takes for each other slot
  what the new bundle holds when the round of that bundle is over; every other bundle is
  as it was. So an operation that the new bundle protects goes to every registered bundle
  that does not refuse it, and a new bundle that does not refuse takes the first operation
  that a registered bundle holds.
\<close>

theorem C10_undefined_type_is_accepted:
  "type (Mixin_constructor Undefined init) = Some Undefined
   \<and> property_key Undefined = ''undefined''
   \<and> (type (fst s mixin) = Some Undefined \<longrightarrow>
        addMixin mixin s =
          Returned (patch_each (fst s) mixin (registered_list (snd s) ''undefined''),
                    (snd s)\<lparr> mixins := (mixins (snd s))
                       (''undefined'' := Some (registered_list (snd s) ''undefined'' @ [mixin])) \<rparr>))
   \<and> ((\<exists>s'. addMixin mixin s = Threw Missing_type s') = (type (fst s mixin) = None))
   \<and> (type (fst s mixin) = Some Undefined
        \<and> distinct (mixin # registered_list (snd s) ''undefined'') \<longrightarrow>
        slot (fst (state_of (addMixin mixin s)) mixin) acc =
          taken (fst s) mixin (registered_list (snd s) ''undefined'') acc)
   \<and> (type (fst s mixin) = Some Undefined
        \<and> distinct (mixin # registered_list (snd s) ''undefined'')
        \<and> registered_list (snd s) ''undefined'' = pre @ b # post \<longrightarrow>
        slot (fst (state_of (addMixin mixin s)) b) acc =
          (if refuses (fst s b) acc then slot (fst s b) acc
           else case taken (fst s) mixin (pre @ [b]) acc of
                  None \<Rightarrow> slot (fst s b) acc
                | Some v \<Rightarrow> Some v))
   \<and> (type (fst s mixin) = Some Undefined
        \<and> x \<noteq> mixin \<and> x \<notin> set (registered_list (snd s) ''undefined'') \<longrightarrow>
        fst (state_of (addMixin mixin s)) x = fst s x)
   \<and> (type (fst s mixin) = Some Undefined
        \<and> refuses (fst s mixin) acc
        \<and> b \<in> set (registered_list (snd s) ''undefined'') \<and> \<not> refuses (fst s b) acc \<longrightarrow>
        slot (fst (state_of (addMixin mixin s)) b) acc = slot (fst s mixin) acc)
   \<and> (type (fst s mixin) = Some Undefined
        \<and> distinct (mixin # registered_list (snd s) ''undefined'')
        \<and> \<not> refuses (fst s mixin) acc
        \<and> registered_list (snd s) ''undefined'' = pre @ b # post
        \<and> (\<forall>x\<in>set pre. slot (fst s x) acc = None \<or> slot (fst s x) acc = Some Null)
        \<and> slot (fst s b) acc = Some (Fn f) \<longrightarrow>
        slot (fst (state_of (addMixin mixin s)) mixin) acc = Some (Fn f))"
proof -
  let ?reg = "registered_list (snd s) ''undefined''"
  have key: "property_key Undefined = ''undefined''"
    by (simp add: property_key_def)
  have "''undefined'' \<notin> set object_prototype_names"
    by (simp add: object_prototype_names_def)
  with key addMixin_returned [of s mixin Undefined]
  have returned: "type (fst s mixin) = Some Undefined \<longrightarrow>
        addMixin mixin s =
          Returned (patch_each (fst s) mixin ?reg,
                    (snd s)\<lparr> mixins := (mixins (snd s))
                       (''undefined'' := Some (?reg @ [mixin])) \<rparr>)"
    by simp
  then have store: "type (fst s mixin) = Some Undefined \<Longrightarrow>
        fst (state_of (addMixin mixin s)) = patch_each (fst s) mixin ?reg"
    by simp
  have new: "type (fst s mixin) = Some Undefined \<and> distinct (mixin # ?reg) \<longrightarrow>
        slot (fst (state_of (addMixin mixin s)) mixin) acc = taken (fst s) mixin ?reg acc"
    using new_bundle_takes [of mixin ?reg "fst s" acc] by (simp add: store)
  have old: "type (fst s mixin) = Some Undefined \<and> distinct (mixin # ?reg)
        \<and> ?reg = pre @ b # post \<longrightarrow>
        slot (fst (state_of (addMixin mixin s)) b) acc =
          (if refuses (fst s b) acc then slot (fst s b) acc
           else case taken (fst s) mixin (pre @ [b]) acc of
                  None \<Rightarrow> slot (fst s b) acc
                | Some v \<Rightarrow> Some v)"
  proof (intro impI, elim conjE)
    assume t: "type (fst s mixin) = Some Undefined" and d: "distinct (mixin # ?reg)"
      and split: "?reg = pre @ b # post"
    from d split have "distinct (mixin # pre @ b # post)" by simp
    then have "slot (patch_each (fst s) mixin (pre @ b # post) b) acc =
          (if refuses (fst s b) acc then slot (fst s b) acc
           else case taken (fst s) mixin (pre @ [b]) acc of
                  None \<Rightarrow> slot (fst s b) acc
                | Some v \<Rightarrow> Some v)"
      by (rule registered_bundle_takes)
    with t split show "slot (fst (state_of (addMixin mixin s)) b) acc =
          (if refuses (fst s b) acc then slot (fst s b) acc
           else case taken (fst s) mixin (pre @ [b]) acc of
                  None \<Rightarrow> slot (fst s b) acc
                | Some v \<Rightarrow> Some v)"
      by (simp only: store)
  qed
  have others: "type (fst s mixin) = Some Undefined \<and> x \<noteq> mixin \<and> x \<notin> set ?reg \<longrightarrow>
        fst (state_of (addMixin mixin s)) x = fst s x"
    by (simp add: store patch_each_other)
  have gives: "type (fst s mixin) = Some Undefined \<and> refuses (fst s mixin) acc
        \<and> b \<in> set ?reg \<and> \<not> refuses (fst s b) acc \<longrightarrow>
        slot (fst (state_of (addMixin mixin s)) b) acc = slot (fst s mixin) acc"
    by (simp add: store new_bundle_gives)
  have takes: "type (fst s mixin) = Some Undefined \<and> distinct (mixin # ?reg)
        \<and> \<not> refuses (fst s mixin) acc \<and> ?reg = pre @ b # post
        \<and> (\<forall>x\<in>set pre. slot (fst s x) acc = None \<or> slot (fst s x) acc = Some Null)
        \<and> slot (fst s b) acc = Some (Fn f) \<longrightarrow>
        slot (fst (state_of (addMixin mixin s)) mixin) acc = Some (Fn f)"
  proof (intro impI, elim conjE)
    assume t: "type (fst s mixin) = Some Undefined" and d: "distinct (mixin # ?reg)"
      and r: "\<not> refuses (fst s mixin) acc" and split: "?reg = pre @ b # post"
      and nulls: "\<forall>x\<in>set pre. slot (fst s x) acc = None \<or> slot (fst s x) acc = Some Null"
      and op: "slot (fst s b) acc = Some (Fn f)"
    from nulls op have "offered (fst s) (pre @ b # post) acc = Some (Fn f)"
      by (rule offered_first_operation)
    with r split have "taken (fst s) mixin ?reg acc = Some (Fn f)"
      by (simp add: taken_def)
    with new t d show "slot (fst (state_of (addMixin mixin s)) mixin) acc = Some (Fn f)"
      by simp
  qed
  have built: "type (Mixin_constructor Undefined init) = Some Undefined"
    by (simp add: Mixin_constructor_def)
  have missing: "(\<exists>s'. addMixin mixin s = Threw Missing_type s') = (type (fst s mixin) = None)"
    by (rule addMixin_threw_missing_iff)
  from built key returned missing new old others gives takes show ?thesis
    by (intro conjI)
qed

text \<open>
  Three bundles of type \<^verbatim>\<open>undefined\<close> with one operation each, added one after the
  other: the third takes the operations of the first two and gives its own to both.
\<close>

lemma ex10_two_eq:
  "ex10_two = (patch_each ex10_three 20 [10],
               no_plugins\<lparr> mixins := (\<lambda>k. None)(''undefined'' := Some [10, 20]) \<rparr>)"
proof -
  have t: "type (ex10_three 10) = Some Undefined" "type (ex10_three 20) = Some Undefined"
    by (simp_all add: ex10_three_def Mixin_constructor_def)
  have key: "property_key Undefined = ''undefined''"
    by (simp add: property_key_def)
  have new: "''undefined'' \<notin> set object_prototype_names"
    by (simp add: object_prototype_names_def)
  let ?c = "no_plugins\<lparr> mixins := (\<lambda>k. None)(''undefined'' := Some [10]) \<rparr>"
  from t key new have one: "addMixin 10 (ex10_three, no_plugins) = Returned (ex10_three, ?c)"
    by (simp add: addMixin_returned registered_list_def no_plugins_def)
  from t key new have two: "addMixin 20 (ex10_three, ?c) =
      Returned (patch_each ex10_three 20 [10],
                no_plugins\<lparr> mixins := (\<lambda>k. None)(''undefined'' := Some [10, 20]) \<rparr>)"
    by (simp add: addMixin_returned registered_list_def no_plugins_def)
  from one two show ?thesis
    by (simp add: ex10_two_def)
qed

lemma ex10_two_registered:
  "registered_list (snd ex10_two) ''undefined'' = [10, 20]"
  "type (fst ex10_two 30) = Some Undefined"
  by (simp_all add: ex10_two_eq registered_list_def ex10_three_def Mixin_constructor_def)

lemma ex10_two_slots:
  "slot (fst ex10_two 10) Make = Some (Fn 1)" "slot (fst ex10_two 10) Get = Some (Fn 2)"
  "slot (fst ex10_two 10) Set = Some Null"
  "slot (fst ex10_two 20) Make = Some (Fn 1)" "slot (fst ex10_two 20) Get = Some (Fn 2)"
  "slot (fst ex10_two 20) Set = Some Null"
  "slot (fst ex10_two 30) Make = Some Null" "slot (fst ex10_two 30) Get = Some Null"
  "slot (fst ex10_two 30) Set = Some (Fn 3)"
  by (simp_all add: ex10_two_eq patchMixin_at_slot patchProperty_at_one_slot refuses_def
        ex10_three_def Mixin_constructor_def)

lemma ex10_two_flags:
  "writeProtectedMethods (fst ex10_two 10) acc"
  "writeProtectedMethods (fst ex10_two 20) acc"
  "writeProtectedMethods (fst ex10_two 30) acc"
  by (simp_all add: ex10_two_eq patchMixin_at_flag patchMixin_at_slot refuses_def
        ex10_three_def Mixin_constructor_def)

text \<open>The loop of \<^verbatim>\<open>addMixin\<close> for the third bundle, run round by round.\<close>

lemma ex10_two_added:
  "slot (patch_each (fst ex10_two) 30 [10, 20] 10) Make = Some (Fn 1)"
  "slot (patch_each (fst ex10_two) 30 [10, 20] 10) Get = Some (Fn 2)"
  "slot (patch_each (fst ex10_two) 30 [10, 20] 10) Set = Some (Fn 3)"
  "slot (patch_each (fst ex10_two) 30 [10, 20] 20) Make = Some (Fn 1)"
  "slot (patch_each (fst ex10_two) 30 [10, 20] 20) Get = Some (Fn 2)"
  "slot (patch_each (fst ex10_two) 30 [10, 20] 20) Set = Some (Fn 3)"
  "slot (patch_each (fst ex10_two) 30 [10, 20] 30) Make = Some (Fn 1)"
  "slot (patch_each (fst ex10_two) 30 [10, 20] 30) Get = Some (Fn 2)"
  "slot (patch_each (fst ex10_two) 30 [10, 20] 30) Set = Some (Fn 3)"
  by (simp_all add: patchMixin_at_slot patchMixin_at_flag refuses_def
        ex10_two_slots ex10_two_flags)

theorem C10_undefined_type_is_accepted_witness:
  "type (fst ex10_two 30) = Some Undefined
   \<and> registered_list (snd ex10_two) ''undefined'' = [10, 20]
   \<and> slot (fst ex10_two 10) Set = Some Null \<and> slot (fst ex10_two 20) Set = Some Null
   \<and> slot (fst ex10_two 30) Make = Some Null \<and> slot (fst ex10_two 30) Get = Some Null
   \<and> addMixin 30 ex10_two =
         Returned (patch_each (fst ex10_two) 30 [10, 20],
                   (snd ex10_two)\<lparr> mixins := (mixins (snd ex10_two))
                      (''undefined'' := Some [10, 20, 30]) \<rparr>)
   \<and> slot (fst (state_of (addMixin 30 ex10_two)) 10) Make = Some (Fn 1)
   \<and> slot (fst (state_of (addMixin 30 ex10_two)) 10) Get = Some (Fn 2)
   \<and> slot (fst (state_of (addMixin 30 ex10_two)) 10) Set = Some (Fn 3)
   \<and> slot (fst (state_of (addMixin 30 ex10_two)) 20) Make = Some (Fn 1)
   \<and> slot (fst (state_of (addMixin 30 ex10_two)) 20) Get = Some (Fn 2)
   \<and> slot (fst (state_of (addMixin 30 ex10_two)) 20) Set = Some (Fn 3)
   \<and> slot (fst (state_of (addMixin 30 ex10_two)) 30) Make = Some (Fn 1)
   \<and> slot (fst (state_of (addMixin 30 ex10_two)) 30) Get = Some (Fn 2)
   \<and> slot (fst (state_of (addMixin 30 ex10_two)) 30) Set = Some (Fn 3)
   \<and> fst (state_of (addMixin 30 ex10_two)) 40 = fst ex10_two 40"
proof -
  note reg = ex10_two_registered
  note before = ex10_two_slots
  note defs = taken_def refuses_def ex10_two_flags
  let ?h = "fst (state_of (addMixin 30 ex10_two))"
  note last_of_two =
    C10_undefined_type_is_accepted [of "\<lambda>a. None" ex10_two 30 Set "[10]" 20 "[]" 40 0]
  from last_of_two [THEN conjunct2, THEN conjunct2, THEN conjunct1] reg
  have added: "addMixin 30 ex10_two =
         Returned (patch_each (fst ex10_two) 30 [10, 20],
                   (snd ex10_two)\<lparr> mixins := (mixins (snd ex10_two))
                      (''undefined'' := Some [10, 20, 30]) \<rparr>)"
    by simp
  from last_of_two [THEN conjunct2, THEN conjunct2, THEN conjunct2, THEN conjunct2, THEN conjunct1] reg before
  have set30: "slot (?h 30) Set = Some (Fn 3)"
    by (simp add: defs)
  from last_of_two [THEN conjunct2, THEN conjunct2, THEN conjunct2, THEN conjunct2, THEN conjunct2, THEN conjunct1] reg before
  have set20: "slot (?h 20) Set = Some (Fn 3)"
    by (simp add: defs)
  from last_of_two [THEN conjunct2, THEN conjunct2, THEN conjunct2, THEN conjunct2, THEN conjunct2, THEN conjunct2, THEN conjunct1] reg
  have other: "?h 40 = fst ex10_two 40"
    by simp
  from C10_undefined_type_is_accepted [of "\<lambda>a. None" ex10_two 30 Set "[]" 10 "[20]" 40 0,
         THEN conjunct2, THEN conjunct2, THEN conjunct2, THEN conjunct2, THEN conjunct2, THEN conjunct2, THEN conjunct2, THEN conjunct1] reg before
  have set10: "slot (?h 10) Set = Some (Fn 3)"
    by (simp add: defs)
  note first_make =
    C10_undefined_type_is_accepted [of "\<lambda>a. None" ex10_two 30 Make "[]" 10 "[20]" 40 1]
  from first_make [THEN conjunct2, THEN conjunct2, THEN conjunct2, THEN conjunct2, THEN conjunct2, THEN conjunct2, THEN conjunct2, THEN conjunct2] reg before
  have make30: "slot (?h 30) Make = Some (Fn 1)"
    by (simp add: defs)
  from first_make [THEN conjunct2, THEN conjunct2, THEN conjunct2, THEN conjunct2, THEN conjunct2, THEN conjunct1] reg before
  have make10: "slot (?h 10) Make = Some (Fn 1)"
    by (simp add: defs)
  from C10_undefined_type_is_accepted [of "\<lambda>a. None" ex10_two 30 Make "[10]" 20 "[]" 40 0,
         THEN conjunct2, THEN conjunct2, THEN conjunct2, THEN conjunct2, THEN conjunct2, THEN conjunct1] reg before
  have make20: "slot (?h 20) Make = Some (Fn 1)"
    by (simp add: defs)
  note first_get =
    C10_undefined_type_is_accepted [of "\<lambda>a. None" ex10_two 30 Get "[]" 10 "[20]" 40 2]
  from first_get [THEN conjunct2, THEN conjunct2, THEN conjunct2, THEN conjunct2, THEN conjunct2, THEN conjunct2, THEN conjunct2, THEN conjunct2] reg before
  have get30: "slot (?h 30) Get = Some (Fn 2)"
    by (simp add: defs)
  from first_get [THEN conjunct2, THEN conjunct2, THEN conjunct2, THEN conjunct2, THEN conjunct2, THEN conjunct1] reg before
  have get10: "slot (?h 10) Get = Some (Fn 2)"
    by (simp add: defs)
  from C10_undefined_type_is_accepted [of "\<lambda>a. None" ex10_two 30 Get "[10]" 20 "[]" 40 0,
         THEN conjunct2, THEN conjunct2, THEN conjunct2, THEN conjunct2, THEN conjunct2, THEN conjunct1] reg before
  have get20: "slot (?h 20) Get = Some (Fn 2)"
    by (simp add: defs)
  from reg before added set10 set20 set30 make10 make20 make30 get10 get20 get30 other
  show ?thesis by (intro conjI)
qed


subsection \<open>Bundles that never agree\<close>

text \<open>
  Claim C9. Two bundles of one type that hold different operations for a slot, both
  protected, are added to a registry, and then any calls of \<^verbatim>\<open>addMixin\<close> and
  \<^verbatim>\<open>addPlugin\<close> follow. Each bundle still holds its own operation, protected, so
  the two differ in that slot for good; and unless the key of their type is a name
  inherited from \<^verbatim>\<open>Object.prototype\<close>, both stand under it in the registry.
\<close>

theorem C9_protected_bundles_disagree:
  assumes "slot (fst s a) acc = Some (Fn f)" and "writeProtectedMethods (fst s a) acc"
    and "slot (fst s b) acc = Some (Fn g)" and "writeProtectedMethods (fst s b) acc"
    and "f \<noteq> g"
    and "type (fst s a) = Some ty" and "type (fst s b) = Some ty"
  shows "(let s' = fold perform (Add_mixin a # Add_mixin b # later) s in
            slot (fst s' a) acc = Some (Fn f) \<and> writeProtectedMethods (fst s' a) acc
          \<and> slot (fst s' b) acc = Some (Fn g) \<and> writeProtectedMethods (fst s' b) acc
          \<and> slot (fst s' a) acc \<noteq> slot (fst s' b) acc
          \<and> (if property_key ty \<in> set object_prototype_names then True
             else registered_under (snd s') (property_key ty) a
                \<and> registered_under (snd s') (property_key ty) b))"
proof -
  let ?s' = "fold perform (Add_mixin a # Add_mixin b # later) s"
  let ?key = "property_key ty"
  have a: "slot (fst ?s' a) acc = Some (Fn f) \<and> writeProtectedMethods (fst ?s' a) acc"
    using assms(1,2) by (rule perform_keeps_protected)
  have b: "slot (fst ?s' b) acc = Some (Fn g) \<and> writeProtectedMethods (fst ?s' b) acc"
    using assms(3,4) by (rule perform_keeps_protected)
  have r: "registered_under (snd ?s') ?key a \<and> registered_under (snd ?s') ?key b"
    if k: "?key \<notin> set object_prototype_names"
  proof -
    let ?s1 = "state_of (addMixin a s)"
    let ?s2 = "state_of (addMixin b ?s1)"
    from assms(6) k have "registered_under (snd ?s1) ?key a"
      by (rule addMixin_registers_typed)
    then have ra: "registered_under (snd ?s2) ?key a"
      by (rule addMixin_keeps_registered)
    from assms(7) have "type (fst ?s1 b) = Some ty" by simp
    then have rb: "registered_under (snd ?s2) ?key b"
      using k by (rule addMixin_registers_typed)
    from ra rb perform_keeps_registered [of ?s2 ?key _ later]
    show ?thesis by simp
  qed
  from a b r assms(5) show ?thesis by (simp add: Let_def)
qed

theorem C9_protected_bundles_disagree_witness:
  "slot (ex9_heap 0) Make = Some (Fn 1) \<and> writeProtectedMethods (ex9_heap 0) Make
   \<and> slot (ex9_heap 1) Make = Some (Fn 2) \<and> writeProtectedMethods (ex9_heap 1) Make
   \<and> type (ex9_heap 0) = Some (Str ''T'') \<and> type (ex9_heap 1) = Some (Str ''T'')
   \<and> (let s' = fold perform [Add_mixin 0, Add_mixin 1, Add_mixin 2] (ex9_heap, no_plugins)
      in slot (fst s' 0) Make = Some (Fn 1) \<and> slot (fst s' 1) Make = Some (Fn 2)
       \<and> registered_under (snd s') ''T'' 0 \<and> registered_under (snd s') ''T'' 1)"
proof -
  have h: "slot (fst (ex9_heap, no_plugins) 0) Make = Some (Fn 1)"
    "writeProtectedMethods (fst (ex9_heap, no_plugins) 0) Make"
    "slot (fst (ex9_heap, no_plugins) 1) Make = Some (Fn 2)"
    "writeProtectedMethods (fst (ex9_heap, no_plugins) 1) Make"
    "(1::nat) \<noteq> 2"
    "type (fst (ex9_heap, no_plugins) 0) = Some (Str ''T'')"
    "type (fst (ex9_heap, no_plugins) 1) = Some (Str ''T'')"
    by (simp_all add: ex9_heap_def Mixin_constructor_def)
  have k: "property_key (Str ''T'') = ''T''" "''T'' \<notin> set object_prototype_names"
    by (simp_all add: property_key_def object_prototype_names_def)
  from C9_protected_bundles_disagree [OF h, of "[Add_mixin 2]"] h k
  show ?thesis by (simp add: Let_def)
qed


section \<open>Properties of initialization\<close>

lemma init_each_in_sequence:
  "init_each call ps initParameters w =
     in_sequence call
       (concat (map (\<lambda>p. case initPlugin (snd p) of
                          Some (Fn f) \<Rightarrow> [(f, snd p, [Arr initParameters])]
                        | _ \<Rightarrow> []) ps)) w"
proof (induction ps arbitrary: w)
  case Nil
  show ?case by simp
next
  case (Cons p ps)
  show ?case
  proof (cases "initPlugin (snd p)")
    case None
    with Cons.IH show ?thesis by simp
  next
    case (Some v)
    with Cons.IH show ?thesis
      by (cases v) (simp_all split: prod.split option.split)
  qed
qed

lemma in_sequence_append:
  "in_sequence call (pre @ post) w =
     (case in_sequence call pre w of
        (w1, Some e) \<Rightarrow> (w1, Some e)
      | (w1, None) \<Rightarrow> in_sequence call post w1)"
proof (induction pre arbitrary: w)
  case Nil
  show ?case by simp
next
  case (Cons i pre)
  show ?case by (simp add: Cons.IH split: prod.split option.split)
qed

text \<open>The order of enumeration.\<close>

lemma for_in_order_indices:
  "filter (\<lambda>p. is_array_index (fst p)) (for_in_order props) =
     sort_key (\<lambda>p. digits_value (fst p)) (filter (\<lambda>p. is_array_index (fst p)) props)"
  by (simp add: for_in_order_def filter_sort)

lemma for_in_order_others:
  "filter (\<lambda>p. \<not> is_array_index (fst p)) (for_in_order props) =
     filter (\<lambda>p. \<not> is_array_index (fst p)) props"
  by (simp add: for_in_order_def filter_sort)

lemma for_in_order_indices_first:
  "for_in_order props =
     filter (\<lambda>p. is_array_index (fst p)) (for_in_order props)
     @ filter (\<lambda>p. \<not> is_array_index (fst p)) (for_in_order props)"
  unfolding for_in_order_indices for_in_order_others by (simp add: for_in_order_def)

lemma for_in_order_ascending:
  "sorted (map (\<lambda>p. digits_value (fst p))
     (filter (\<lambda>p. is_array_index (fst p)) (for_in_order props)))"
  by (simp add: for_in_order_indices)

lemma length_for_in_order: "length (for_in_order props) = length props"
  by (simp add: for_in_order_def sum_length_filter_compl)

lemma for_in_order_no_index:
  assumes "\<forall>p \<in> set props. \<not> is_array_index (fst p)"
  shows "for_in_order props = props"
proof -
  from assms have "filter (\<lambda>p. is_array_index (fst p)) props = []"
    by (simp add: filter_empty_conv)
  moreover from assms have "filter (\<lambda>p. \<not> is_array_index (fst p)) props = props"
    by (simp add: filter_id_conv)
  ultimately show ?thesis by (simp add: for_in_order_def)
qed

text \<open>Storing a group.\<close>

lemma assign_new: "key \<notin> fst ` set props \<Longrightarrow> assign props key v = props @ [(key, v)]"
  by (induction props) auto

lemma assign_replace:
  "key \<notin> fst ` set pre \<Longrightarrow> assign (pre @ (key, old) # post) key v = pre @ (key, v) # post"
  by (induction pre) auto

lemma addPlugin_plugins:
  "plugins (snd (state_of (addPlugin plugin s))) =
     (if loadCondition plugin = Some (Answers False) then plugins (snd s)
      else plugins (store_plugin (snd s)
             (case name plugin of None \<Rightarrow> ''Untitled Plugin'' | Some n \<Rightarrow> n) plugin))"
  by (simp add: addPlugin_def Let_def)

lemma plugins_proto_addMixin [simp]:
  "plugins_proto (snd (state_of (addMixin mixin s))) = plugins_proto (snd s)"
  by (cases mixin s rule: addMixin_cases) simp_all

lemma plugins_proto_addMixins [simp]:
  "plugins_proto (snd (state_of (addMixins ms s))) = plugins_proto (snd s)"
  by (rule addMixins_preserves [where P = "\<lambda>t. plugins_proto (snd t) = plugins_proto (snd s)"])
     simp_all

lemma addPlugin_plugins_proto:
  "plugins_proto (snd (state_of (addPlugin plugin s))) =
     (if loadCondition plugin = Some (Answers False) then plugins_proto (snd s)
      else plugins_proto (store_plugin (snd s)
             (case name plugin of None \<Rightarrow> ''Untitled Plugin'' | Some n \<Rightarrow> n) plugin))"
  by (simp add: addPlugin_def Let_def)

text \<open>
  Claim C6 as the code has it, for a registry whose \<open>plugins\<close> has the prototype it was
  created with, and for a call during which no initializer stores a group in the
  registry. The initializers that the call runs are those of the groups in \<open>plugins\<close>,
  in the order of enumeration, each with its group as receiver and the array of the
  arguments of the call as its one argument; they run one after the other, the call
  resolves to the registry when none fails, and it rejects with the error of the first
  that fails, after which no other runs. The order of enumeration holds every stored
  group once: first the names that are array indices, in ascending numeric order, then
  the other names in the order in which they were first stored. \<^verbatim>\<open>addPlugin\<close> stores
  a group with a new name last and puts a group with a name that is there in the place of
  the group of that name; for a name other than \<^verbatim>\<open>"__proto__"\<close> it leaves the
  prototype as it is.
\<close>

theorem C6_initializers_in_enumeration_order:
  assumes "plugins_proto this = None"
  shows
  "initMixinPlugins call this initParameters w =
     (case in_sequence call (invocations this initParameters) w of
        (w', None) \<Rightarrow> (Resolved this, w')
      | (w', Some e) \<Rightarrow> (Rejected e, w'))
   \<and> invocations this initParameters =
        concat (map (\<lambda>p. case initPlugin (snd p) of
                            Some (Fn f) \<Rightarrow> [(f, snd p, [Arr initParameters])]
                          | _ \<Rightarrow> [])
                    (for_in_order (plugins this)))
   \<and> (in_sequence call pre w = (w1, None) \<and> call f receiver args w1 = (w', Some e) \<longrightarrow>
        in_sequence call (pre @ (f, receiver, args) # post) w = (w', Some e))
   \<and> (in_sequence call pre w = (w1, None) \<and> call f receiver args w1 = (w', None) \<longrightarrow>
        in_sequence call (pre @ (f, receiver, args) # post) w = in_sequence call post w')
   \<and> for_in_order (plugins this) =
        filter (\<lambda>p. is_array_index (fst p)) (for_in_order (plugins this))
        @ filter (\<lambda>p. \<not> is_array_index (fst p)) (for_in_order (plugins this))
   \<and> sorted (map (\<lambda>p. digits_value (fst p))
        (filter (\<lambda>p. is_array_index (fst p)) (for_in_order (plugins this))))
   \<and> filter (\<lambda>p. \<not> is_array_index (fst p)) (for_in_order (plugins this))
        = filter (\<lambda>p. \<not> is_array_index (fst p)) (plugins this)
   \<and> set (for_in_order (plugins this)) = set (plugins this)
   \<and> length (for_in_order (plugins this)) = length (plugins this)
   \<and> (loadCondition plugin \<noteq> Some (Answers False) \<and> name plugin = Some n
        \<and> n \<noteq> ''__proto__'' \<and> n \<notin> fst ` set (plugins (snd s)) \<longrightarrow>
        plugins (snd (state_of (addPlugin plugin s))) = plugins (snd s) @ [(n, plugin)])
   \<and> (loadCondition plugin \<noteq> Some (Answers False) \<and> name plugin = Some n
        \<and> n \<noteq> ''__proto__'' \<and> plugins (snd s) = before @ (n, old) # after
        \<and> n \<notin> fst ` set before \<longrightarrow>
        plugins (snd (state_of (addPlugin plugin s))) = before @ (n, plugin) # after)
   \<and> (name plugin = Some n \<and> n \<noteq> ''__proto__'' \<longrightarrow>
        plugins_proto (snd (state_of (addPlugin plugin s))) = plugins_proto (snd s))"
proof -
  from assms have np: "\<not> reaches_primitive this"
    by (simp add: reaches_primitive_def)
  have run: "initMixinPlugins call this initParameters w =
     (case in_sequence call (invocations this initParameters) w of
        (w', None) \<Rightarrow> (Resolved this, w')
      | (w', Some e) \<Rightarrow> (Rejected e, w'))"
    by (simp add: initMixinPlugins_def invocations_def init_each_in_sequence np
          split: prod.split option.split)
  have inv: "invocations this initParameters =
        concat (map (\<lambda>p. case initPlugin (snd p) of
                            Some (Fn f) \<Rightarrow> [(f, snd p, [Arr initParameters])]
                          | _ \<Rightarrow> [])
                    (for_in_order (plugins this)))"
    by (simp add: invocations_def)
  have halt: "in_sequence call pre w = (w1, None) \<and> call f receiver args w1 = (w', Some e) \<longrightarrow>
        in_sequence call (pre @ (f, receiver, args) # post) w = (w', Some e)"
    by (simp add: in_sequence_append)
  have go: "in_sequence call pre w = (w1, None) \<and> call f receiver args w1 = (w', None) \<longrightarrow>
        in_sequence call (pre @ (f, receiver, args) # post) w = in_sequence call post w'"
    by (simp add: in_sequence_append)
  have new: "loadCondition plugin \<noteq> Some (Answers False) \<and> name plugin = Some n
        \<and> n \<noteq> ''__proto__'' \<and> n \<notin> fst ` set (plugins (snd s)) \<longrightarrow>
        plugins (snd (state_of (addPlugin plugin s))) = plugins (snd s) @ [(n, plugin)]"
    by (simp add: addPlugin_plugins store_plugin_def assign_new)
  have old: "loadCondition plugin \<noteq> Some (Answers False) \<and> name plugin = Some n
        \<and> n \<noteq> ''__proto__'' \<and> plugins (snd s) = before @ (n, old) # after
        \<and> n \<notin> fst ` set before \<longrightarrow>
        plugins (snd (state_of (addPlugin plugin s))) = before @ (n, plugin) # after"
    by (simp add: addPlugin_plugins store_plugin_def assign_replace)
  have proto: "name plugin = Some n \<and> n \<noteq> ''__proto__'' \<longrightarrow>
        plugins_proto (snd (state_of (addPlugin plugin s))) = plugins_proto (snd s)"
    by (simp add: addPlugin_plugins_proto store_plugin_def)
  have same: "set (for_in_order (plugins this)) = set (plugins this)"
    by simp
  note order = for_in_order_indices_first [of "plugins this"]
    for_in_order_ascending [of "plugins this"] for_in_order_others [of "plugins this"]
    length_for_in_order [of "plugins this"]
  from run inv halt go order same new old proto show ?thesis
    by (intro conjI)
qed


text \<open>
  A group named \<^verbatim>\<open>"__proto__"\<close> is not stored: it becomes the prototype of
  \<open>plugins\<close>. A call of \<^verbatim>\<open>initMixinPlugins\<close> then runs the initializers of the
  stored groups and, when none of them fails, is rejected in the round of the inherited
  name \<^verbatim>\<open>"name"\<close>, unless a stored group has that name.
\<close>

lemma proto_group_not_stored:
  assumes "name plugin = Some ''__proto__''" and "loadCondition plugin \<noteq> Some (Answers False)"
  shows "plugins (snd (state_of (addPlugin plugin s))) = plugins (snd s)
       \<and> plugins_proto (snd (state_of (addPlugin plugin s))) = Some plugin"
  using assms by (simp add: addPlugin_plugins addPlugin_plugins_proto store_plugin_def)

lemma proto_group_rejects:
  assumes "plugins_proto this = Some g" and "name g \<noteq> None"
    and "''name'' \<notin> fst ` set (plugins this)"
    and "in_sequence call (invocations this initParameters) w = (w', None)"
  shows "initMixinPlugins call this initParameters w = (Rejected Not_an_object, w')"
proof -
  from assms(2) have "''name'' \<in> set (primitive_names g)"
    by (simp add: primitive_names_def)
  with assms(1,3) have "reaches_primitive this"
    by (auto simp add: reaches_primitive_def list_ex_iff)
  with assms(4) show ?thesis
    by (simp add: initMixinPlugins_def invocations_def init_each_in_sequence)
qed

lemma ex6_names:
  "is_array_index ''1''" "is_array_index ''2''" "is_array_index ''9''" "is_array_index ''10''"
  "digits_value ''1'' = 1" "digits_value ''2'' = 2" "digits_value ''9'' = 9"
  "digits_value ''10'' = 10"
  "\<not> is_array_index ''a''" "\<not> is_array_index ''b''" "\<not> is_array_index ''01''"
  by (simp_all add: is_array_index_def is_digit_def digits_value_def)

lemma ex6_numbered_plugins:
  "plugins ex6_numbered = [(''2'', ex6_group ''2'' 20), (''1'', ex6_group ''1'' 10)]"
  "plugins_proto ex6_numbered = None"
  by (simp_all add: ex6_numbered_def addPlugin_def Let_def ex6_group_def no_plugins_def
        store_plugin_def for_in_order_def)

text \<open>
  A group named \<^verbatim>\<open>"__proto__"\<close> added to the registry of the groups \<^verbatim>\<open>"2"\<close>
  and \<^verbatim>\<open>"1"\<close>: the two initializers run, then the call is rejected.
\<close>

lemma ex6_proto:
  "plugins (snd (state_of (addPlugin (ex6_group ''__proto__'' 70) (ex6_heap, ex6_numbered))))
     = plugins ex6_numbered"
  "plugins_proto (snd (state_of (addPlugin (ex6_group ''__proto__'' 70) (ex6_heap, ex6_numbered))))
     = Some (ex6_group ''__proto__'' 70)"
  "initMixinPlugins recording
     (snd (state_of (addPlugin (ex6_group ''__proto__'' 70) (ex6_heap, ex6_numbered))))
     [Prim 7] []
     = (Rejected Not_an_object, [(10, ex6_group ''1'' 10, [Arr [Prim 7]]),
                                 (20, ex6_group ''2'' 20, [Arr [Prim 7]])])"
  by (simp_all add: addPlugin_def Let_def store_plugin_def ex6_numbered_plugins
        initMixinPlugins_def reaches_primitive_def primitive_names_def for_in_order_def
        ex6_names recording_def ex6_group_def)

text \<open>
  Claim C6 says that the initializers run in the order in which their groups were
  registered, each with the arguments of the call. The groups named \<^verbatim>\<open>"2"\<close> and
  \<^verbatim>\<open>"1"\<close> are registered in this order; with the arguments 7 and 8 the initializer
  of \<^verbatim>\<open>"1"\<close> runs first, and each initializer receives one argument, the array of
  7 and 8.
\<close>

theorem C6_enumeration_is_not_registration_order:
  "map fst (plugins ex6_numbered) = [''2'', ''1'']
   \<and> initMixinPlugins recording ex6_numbered [Prim 7, Prim 8] []
        = (Resolved ex6_numbered, [(10, ex6_group ''1'' 10, [Arr [Prim 7, Prim 8]]),
                                   (20, ex6_group ''2'' 20, [Arr [Prim 7, Prim 8]])])
   \<and> claimed_invocations [ex6_group ''2'' 20, ex6_group ''1'' 10] [Prim 7, Prim 8]
        = [(20, ex6_group ''2'' 20, [Prim 7, Prim 8]), (10, ex6_group ''1'' 10, [Prim 7, Prim 8])]
   \<and> snd (initMixinPlugins recording ex6_numbered [Prim 7, Prim 8] [])
        \<noteq> claimed_invocations [ex6_group ''2'' 20, ex6_group ''1'' 10] [Prim 7, Prim 8]"
  by (simp add: ex6_numbered_plugins initMixinPlugins_def reaches_primitive_def
        for_in_order_def ex6_names recording_def claimed_invocations_def ex6_group_def)

text \<open>
  Five names, two of them array indices, and a second group for the name that was stored
  first: the group takes the place of the first, the indices 9 and 10 are enumerated
  before the names \<^verbatim>\<open>"b"\<close>, \<^verbatim>\<open>"a"\<close> and \<^verbatim>\<open>"01"\<close>, and a failure of the third
  initializer leaves the last two unrun.
\<close>

lemma ex6_four_plugins:
  "plugins (snd ex6_four) = [(''b'', ex6_group ''b'' 10), (''10'', ex6_group ''10'' 20),
                             (''a'', ex6_group ''a'' 30), (''9'', ex6_group ''9'' 40)]"
  "plugins_proto (snd ex6_four) = None"
  by (simp_all add: ex6_four_def addPlugin_def Let_def ex6_group_def no_plugins_def
        store_plugin_def for_in_order_def)

lemma ex6_group_simps [simp]:
  "name (ex6_group n f) = Some n" "loadCondition (ex6_group n f) = None"
  "initPlugin (ex6_group n f) = Some (Fn f)"
  by (simp_all add: ex6_group_def)

lemma ex6_registry_plugins:
  "plugins ex6_registry
     = [(''b'', ex6_group ''b'' 60), (''10'', ex6_group ''10'' 20),
        (''a'', ex6_group ''a'' 30), (''9'', ex6_group ''9'' 40),
        (''01'', ex6_group ''01'' 50)]"
  "for_in_order (plugins ex6_registry)
     = [(''9'', ex6_group ''9'' 40), (''10'', ex6_group ''10'' 20),
        (''b'', ex6_group ''b'' 60), (''a'', ex6_group ''a'' 30),
        (''01'', ex6_group ''01'' 50)]"
  by (simp_all add: ex6_registry_def ex6_five_def ex6_four_plugins addPlugin_def Let_def
        store_plugin_def for_in_order_def ex6_names)

theorem C6_initializers_in_enumeration_order_witness:
  "plugins_proto ex6_registry = None
   \<and> map fst (plugins (snd ex6_four)) = [''b'', ''10'', ''a'', ''9'']
   \<and> map fst (plugins (snd ex6_five)) = [''b'', ''10'', ''a'', ''9'', ''01'']
   \<and> plugins ex6_registry
        = [(''b'', ex6_group ''b'' 60), (''10'', ex6_group ''10'' 20),
           (''a'', ex6_group ''a'' 30), (''9'', ex6_group ''9'' 40),
           (''01'', ex6_group ''01'' 50)]
   \<and> map fst (for_in_order (plugins ex6_registry)) = [''9'', ''10'', ''b'', ''a'', ''01'']
   \<and> invocations ex6_registry [Prim 7]
        = [(40, ex6_group ''9'' 40, [Arr [Prim 7]]), (20, ex6_group ''10'' 20, [Arr [Prim 7]]),
           (60, ex6_group ''b'' 60, [Arr [Prim 7]]), (30, ex6_group ''a'' 30, [Arr [Prim 7]]),
           (50, ex6_group ''01'' 50, [Arr [Prim 7]])]
   \<and> initMixinPlugins (failing_at 60 5) ex6_registry [Prim 7] []
        = (Rejected (Raised 5),
           [(40, ex6_group ''9'' 40, [Arr [Prim 7]]), (20, ex6_group ''10'' 20, [Arr [Prim 7]]),
            (60, ex6_group ''b'' 60, [Arr [Prim 7]])])
   \<and> initMixinPlugins recording ex6_registry [Prim 7] []
        = (Resolved ex6_registry, invocations ex6_registry [Prim 7])
   \<and> in_sequence (failing_at 60 5) (invocations ex6_registry [Prim 7]) []
        = ([(40, ex6_group ''9'' 40, [Arr [Prim 7]]), (20, ex6_group ''10'' 20, [Arr [Prim 7]]),
            (60, ex6_group ''b'' 60, [Arr [Prim 7]])], Some (Raised 5))
   \<and> in_sequence recording (invocations ex6_registry [Prim 7]) []
        = in_sequence recording
            [(60, ex6_group ''b'' 60, [Arr [Prim 7]]), (30, ex6_group ''a'' 30, [Arr [Prim 7]]),
             (50, ex6_group ''01'' 50, [Arr [Prim 7]])]
            [(40, ex6_group ''9'' 40, [Arr [Prim 7]]), (20, ex6_group ''10'' 20, [Arr [Prim 7]])]"
proof -
  let ?i9 = "(40, ex6_group ''9'' 40, [Arr [Prim 7]])"
  let ?i10 = "(20, ex6_group ''10'' 20, [Arr [Prim 7]])"
  let ?ib = "(60, ex6_group ''b'' 60, [Arr [Prim 7]])"
  let ?ia = "(30, ex6_group ''a'' 30, [Arr [Prim 7]])"
  let ?i01 = "(50, ex6_group ''01'' 50, [Arr [Prim 7]])"
  note four = ex6_four_plugins
  have five: "plugins (snd ex6_five) = plugins (snd ex6_four) @ [(''01'', ex6_group ''01'' 50)]"
    and proto5: "plugins_proto (snd ex6_five) = None"
    using C6_initializers_in_enumeration_order
            [of no_plugins recording "[]" "[]" "[]" "[]" 0 "ex6_group [] 0" "[]" "[]"
                "Raised 0" "[]" "ex6_group ''01'' 50" "''01''" ex6_four
                "[]" "ex6_group [] 0" "[]"]
    by (simp_all add: ex6_five_def four no_plugins_def)
  have p5: "plugins (snd ex6_five) =
      [] @ (''b'', ex6_group ''b'' 10) # [(''10'', ex6_group ''10'' 20),
          (''a'', ex6_group ''a'' 30), (''9'', ex6_group ''9'' 40),
          (''01'', ex6_group ''01'' 50)]"
    by (simp add: five four)
  have six: "plugins ex6_registry =
      [(''b'', ex6_group ''b'' 60), (''10'', ex6_group ''10'' 20),
       (''a'', ex6_group ''a'' 30), (''9'', ex6_group ''9'' 40),
       (''01'', ex6_group ''01'' 50)]"
    and proto6: "plugins_proto ex6_registry = None"
    using C6_initializers_in_enumeration_order
            [of no_plugins recording "[]" "[]" "[]" "[]" 0 "ex6_group [] 0" "[]" "[]"
                "Raised 0" "[]" "ex6_group ''b'' 60" "''b''" ex6_five
                "[]" "ex6_group ''b'' 10"
                "[(''10'', ex6_group ''10'' 20), (''a'', ex6_group ''a'' 30),
                  (''9'', ex6_group ''9'' 40), (''01'', ex6_group ''01'' 50)]"] p5 proto5
    by (simp_all add: ex6_registry_def no_plugins_def)
  have order: "for_in_order (plugins ex6_registry) =
      [(''9'', ex6_group ''9'' 40), (''10'', ex6_group ''10'' 20),
       (''b'', ex6_group ''b'' 60), (''a'', ex6_group ''a'' 30),
       (''01'', ex6_group ''01'' 50)]"
    unfolding six by (simp add: for_in_order_def ex6_names)
  from C6_initializers_in_enumeration_order [OF proto6, of "failing_at 60 5" "[Prim 7]" "[]"]
  have bad: "initMixinPlugins (failing_at 60 5) ex6_registry [Prim 7] [] =
     (case in_sequence (failing_at 60 5) (invocations ex6_registry [Prim 7]) [] of
        (w', None) \<Rightarrow> (Resolved ex6_registry, w')
      | (w', Some e) \<Rightarrow> (Rejected e, w'))"
    and inv0: "invocations ex6_registry [Prim 7] =
        concat (map (\<lambda>p. case initPlugin (snd p) of
                            Some (Fn f) \<Rightarrow> [(f, snd p, [Arr [Prim 7]])]
                          | _ \<Rightarrow> [])
                    (for_in_order (plugins ex6_registry)))"
    by blast+
  from C6_initializers_in_enumeration_order [OF proto6, of recording "[Prim 7]" "[]"]
  have good: "initMixinPlugins recording ex6_registry [Prim 7] [] =
     (case in_sequence recording (invocations ex6_registry [Prim 7]) [] of
        (w', None) \<Rightarrow> (Resolved ex6_registry, w')
      | (w', Some e) \<Rightarrow> (Rejected e, w'))"
    by blast
  have inv: "invocations ex6_registry [Prim 7]
        = [(40, ex6_group ''9'' 40, [Arr [Prim 7]]), (20, ex6_group ''10'' 20, [Arr [Prim 7]]),
           (60, ex6_group ''b'' 60, [Arr [Prim 7]]), (30, ex6_group ''a'' 30, [Arr [Prim 7]]),
           (50, ex6_group ''01'' 50, [Arr [Prim 7]])]"
    unfolding inv0 order by simp
  from C6_initializers_in_enumeration_order
         [OF proto6, of "failing_at 60 5" "[Prim 7]" "[]" "[?i9, ?i10]" "[?i9, ?i10]"
            60 "ex6_group ''b'' 60" "[Arr [Prim 7]]" "[?i9, ?i10, ?ib]" "Raised 5" "[?ia, ?i01]"
            "ex6_group ''b'' 60" "''b''" ex6_five "[]" "ex6_group ''b'' 10" "[]",
          THEN conjunct2, THEN conjunct2, THEN conjunct1]
  have halted: "in_sequence (failing_at 60 5) ([?i9, ?i10] @ ?ib # [?ia, ?i01]) []
        = ([?i9, ?i10, ?ib], Some (Raised 5))"
    by (simp add: failing_at_def)
  from C6_initializers_in_enumeration_order
         [OF proto6, of recording "[Prim 7]" "[]" "[?i9]" "[?i9]"
            20 "ex6_group ''10'' 20" "[Arr [Prim 7]]" "[?i9, ?i10]" "Raised 5" "[?ib, ?ia, ?i01]"
            "ex6_group ''b'' 60" "''b''" ex6_five "[]" "ex6_group ''b'' 10" "[]",
          THEN conjunct2, THEN conjunct2, THEN conjunct2, THEN conjunct1]
  have went: "in_sequence recording ([?i9] @ ?i10 # [?ib, ?ia, ?i01]) []
        = in_sequence recording [?ib, ?ia, ?i01] [?i9, ?i10]"
    by (simp add: recording_def)
  have h1: "in_sequence (failing_at 60 5) (invocations ex6_registry [Prim 7]) []
        = ([?i9, ?i10, ?ib], Some (Raised 5))"
    using halted unfolding inv by simp
  have h2: "in_sequence recording (invocations ex6_registry [Prim 7]) []
        = in_sequence recording [?ib, ?ia, ?i01] [?i9, ?i10]"
    using went unfolding inv by simp
  have r1: "initMixinPlugins (failing_at 60 5) ex6_registry [Prim 7] []
        = (Rejected (Raised 5),
           [(40, ex6_group ''9'' 40, [Arr [Prim 7]]), (20, ex6_group ''10'' 20, [Arr [Prim 7]]),
            (60, ex6_group ''b'' 60, [Arr [Prim 7]])])"
    unfolding bad h1 by simp
  have r2: "initMixinPlugins recording ex6_registry [Prim 7] []
        = (Resolved ex6_registry, invocations ex6_registry [Prim 7])"
    unfolding good unfolding inv by (simp add: recording_def)
  have m4: "map fst (plugins (snd ex6_four)) = [''b'', ''10'', ''a'', ''9'']"
    by (simp add: four)
  have m5: "map fst (plugins (snd ex6_five)) = [''b'', ''10'', ''a'', ''9'', ''01'']"
    by (simp add: five four)
  have mo: "map fst (for_in_order (plugins ex6_registry)) = [''9'', ''10'', ''b'', ''a'', ''01'']"
    unfolding order by simp
  from proto6 m4 m5 six mo inv r1 r2 h1 h2 show ?thesis by (intro conjI)
qed


section \<open>Two bundles of one type\<close>

lemma first_of_type:
  assumes "type (h a) = Some ty" and "mixins c (property_key ty) = None"
    and "property_key ty \<notin> set object_prototype_names"
  shows "addMixin a (h, c) = Returned (h, c\<lparr> mixins := (mixins c)(property_key ty := Some [a]) \<rparr>)"
  using assms by (simp add: addMixin_def Let_def)

lemma second_of_type:
  assumes "type (h b) = Some ty" and "mixins c (property_key ty) = Some [a]"
  shows "addMixin b (h, c) =
           Returned (patchMixin_at (patchMixin_at h b a) a b,
                     c\<lparr> mixins := (mixins c)(property_key ty := Some [a, b]) \<rparr>)"
  using assms by (simp add: addMixin_def Let_def)

lemma pair_merge_slots:
  assumes "a \<noteq> b" and pa: "protects_operations (h a)" and pb: "protects_operations (h b)"
    and disjoint: "\<forall>acc. slot (h a) acc = Some Null \<or> slot (h b) acc = Some Null"
  shows "slot (patchMixin_at (patchMixin_at h b a) a b a) acc = union_slot h a b acc
       \<and> slot (patchMixin_at (patchMixin_at h b a) a b b) acc = union_slot h a b acc"
proof -
  let ?h1 = "patchMixin_at h b a"
  from pa have "slot (h a) acc \<noteq> None"
    and wa': "slot (h a) acc = Some Null \<or> writeProtectedMethods (h a) acc"
    by (simp_all add: protects_operations_def)
  then obtain va where va: "slot (h a) acc = Some va" by blast
  from wa' va have wa: "va = Null \<or> writeProtectedMethods (h a) acc" by simp
  from pb have "slot (h b) acc \<noteq> None"
    and wb': "slot (h b) acc = Some Null \<or> writeProtectedMethods (h b) acc"
    by (simp_all add: protects_operations_def)
  then obtain vb where vb: "slot (h b) acc = Some vb" by blast
  from wb' vb have wb: "vb = Null \<or> writeProtectedMethods (h b) acc" by simp
  from disjoint have "slot (h a) acc = Some Null \<or> slot (h b) acc = Some Null" by (rule spec)
  with va vb have d: "va = Null \<or> vb = Null" by simp
  have h1a: "?h1 a = h a" using assms(1) by simp
  have h1b: "slot (?h1 b) acc = (if refuses (h b) acc then Some vb else Some va)"
    by (simp add: patchMixin_at_slot va vb)
  have rb: "refuses (h b) acc = (vb \<noteq> Null)"
    using wb by (auto simp add: refuses_def vb)
  have ra: "refuses (h a) acc = (va \<noteq> Null)"
    using wa by (auto simp add: refuses_def va)
  have sb: "slot (?h1 b) acc = union_slot h a b acc"
    using d by (auto simp add: h1b rb union_slot_def va vb)
  have "slot (patchMixin_at ?h1 a b a) acc =
          (if slot (?h1 b) acc = None \<or> refuses (?h1 a) acc then slot (?h1 a) acc
           else slot (?h1 b) acc)"
    by (rule patchMixin_at_slot)
  then have sa: "slot (patchMixin_at ?h1 a b a) acc = union_slot h a b acc"
    using d by (auto simp add: h1a sb ra union_slot_def va vb)
  have "patchMixin_at ?h1 a b b = ?h1 b" using assms(1) by simp
  with sa sb show ?thesis by simp
qed

lemma union_slot_commute:
  assumes "slot (h a) acc = Some Null \<or> slot (h b) acc = Some Null"
  shows "union_slot h b a acc = union_slot h a b acc"
  using assms by (auto simp add: union_slot_def)

text \<open>
  For two bundles that protect the operations they hold, the union law holds, in both
  orders of registration, in a registry that holds no bundle under the key of their type
  yet, where that key is no name inherited from \<^verbatim>\<open>Object.prototype\<close>.
\<close>

lemma protected_bundles_union:
  assumes "a \<noteq> b" and "type (h a) = Some ty" and "type (h b) = Some ty"
    and "property_key ty \<notin> set object_prototype_names"
    and "mixins c (property_key ty) = None"
    and "protects_operations (h a)" and "protects_operations (h b)"
    and "\<forall>acc. slot (h a) acc = Some Null \<or> slot (h b) acc = Some Null"
  shows "\<exists>s'. addMixins [a, b] (h, c) = Returned s'
            \<and> mixins (snd s') (property_key ty) = Some [a, b]
            \<and> (\<forall>acc. slot (fst s' a) acc = union_slot h a b acc
                    \<and> slot (fst s' b) acc = union_slot h a b acc)"
    and "\<exists>s'. addMixins [b, a] (h, c) = Returned s'
            \<and> mixins (snd s') (property_key ty) = Some [b, a]
            \<and> (\<forall>acc. slot (fst s' a) acc = union_slot h a b acc
                    \<and> slot (fst s' b) acc = union_slot h a b acc)"
proof -
  let ?k = "property_key ty"
  have ab: "addMixins [a, b] (h, c) =
      Returned (patchMixin_at (patchMixin_at h b a) a b,
                c\<lparr> mixins := (mixins c)(?k := Some [a, b]) \<rparr>)"
    using assms(2-5) by (simp add: first_of_type second_of_type)
  have ba: "addMixins [b, a] (h, c) =
      Returned (patchMixin_at (patchMixin_at h a b) b a,
                c\<lparr> mixins := (mixins c)(?k := Some [b, a]) \<rparr>)"
    using assms(2-5) by (simp add: first_of_type second_of_type)
  from assms(8) have dis': "\<forall>acc. slot (h b) acc = Some Null \<or> slot (h a) acc = Some Null"
    by blast
  from assms(1) have "b \<noteq> a" by simp
  from pair_merge_slots [OF assms(1) assms(6) assms(7) assms(8)] ab
  show "\<exists>s'. addMixins [a, b] (h, c) = Returned s'
            \<and> mixins (snd s') (property_key ty) = Some [a, b]
            \<and> (\<forall>acc. slot (fst s' a) acc = union_slot h a b acc
                    \<and> slot (fst s' b) acc = union_slot h a b acc)"
    by simp
  from pair_merge_slots [OF \<open>b \<noteq> a\<close> assms(7) assms(6) dis'] ba
    union_slot_commute [of h a _ b] assms(8)
  show "\<exists>s'. addMixins [b, a] (h, c) = Returned s'
            \<and> mixins (snd s') (property_key ty) = Some [b, a]
            \<and> (\<forall>acc. slot (fst s' a) acc = union_slot h a b acc
                    \<and> slot (fst s' b) acc = union_slot h a b acc)"
    by simp
qed

text \<open>
  The scenario of the specification: \<^verbatim>\<open>A\<close>, at address 10, is built with
  \<^verbatim>\<open>make\<close> and \<^verbatim>\<open>B\<close>, at address 20, with \<^verbatim>\<open>get\<close>. Registered in
  either order, both hold both operations.
\<close>

lemma fresh_bundles_scenario:
  "\<exists>s'. addMixins [10, 20] (ex2_fresh_heap, no_plugins) = Returned s'
         \<and> slot (fst s' 10) Get = Some (Fn 2) \<and> slot (fst s' 20) Make = Some (Fn 1)
         \<and> slot (fst s' 10) Make = Some (Fn 1) \<and> slot (fst s' 20) Get = Some (Fn 2)"
  "\<exists>s'. addMixins [20, 10] (ex2_fresh_heap, no_plugins) = Returned s'
         \<and> slot (fst s' 10) Get = Some (Fn 2) \<and> slot (fst s' 20) Make = Some (Fn 1)
         \<and> slot (fst s' 10) Make = Some (Fn 1) \<and> slot (fst s' 20) Get = Some (Fn 2)"
proof -
  have ne: "(10::nat) \<noteq> 20" by simp
  have t: "type (ex2_fresh_heap 10) = Some (Str ''T'')" "type (ex2_fresh_heap 20) = Some (Str ''T'')"
    by (simp_all add: ex2_fresh_heap_def Mixin_constructor_def)
  have k: "property_key (Str ''T'') \<notin> set object_prototype_names"
    by (simp add: property_key_def object_prototype_names_def)
  have n: "mixins no_plugins (property_key (Str ''T'')) = None"
    by (simp add: no_plugins_def)
  have p: "protects_operations (ex2_fresh_heap 10)" "protects_operations (ex2_fresh_heap 20)"
    by (simp_all add: protects_operations_def ex2_fresh_heap_def Mixin_constructor_def)
  have d: "\<forall>acc. slot (ex2_fresh_heap 10) acc = Some Null \<or> slot (ex2_fresh_heap 20) acc = Some Null"
    by (simp add: ex2_fresh_heap_def Mixin_constructor_def)
  have u: "union_slot ex2_fresh_heap 10 20 Make = Some (Fn 1)"
    "union_slot ex2_fresh_heap 10 20 Get = Some (Fn 2)"
    by (simp_all add: union_slot_def ex2_fresh_heap_def Mixin_constructor_def)
  from protected_bundles_union(1) [OF ne t k n p d] u
  show "\<exists>s'. addMixins [10, 20] (ex2_fresh_heap, no_plugins) = Returned s'
         \<and> slot (fst s' 10) Get = Some (Fn 2) \<and> slot (fst s' 20) Make = Some (Fn 1)
         \<and> slot (fst s' 10) Make = Some (Fn 1) \<and> slot (fst s' 20) Get = Some (Fn 2)"
    by auto
  from protected_bundles_union(2) [OF ne t k n p d] u
  show "\<exists>s'. addMixins [20, 10] (ex2_fresh_heap, no_plugins) = Returned s'
         \<and> slot (fst s' 10) Get = Some (Fn 2) \<and> slot (fst s' 20) Make = Some (Fn 1)
         \<and> slot (fst s' 10) Make = Some (Fn 1) \<and> slot (fst s' 20) Get = Some (Fn 2)"
    by auto
qed

text \<open>
  Claim C2 says that two bundles of one type whose operations fill different slots both
  hold the union of their operations once both are registered, in whichever order. The
  bundle at address 10 holds \<^verbatim>\<open>make\<close> and was unprotected, the one at address 20
  holds \<^verbatim>\<open>get\<close>. Registered after the other, the first takes the
  \<^verbatim>\<open>null\<close> of the other for \<^verbatim>\<open>make\<close> and its operation is lost to both;
  registered before the other, both hold both operations.
\<close>

theorem C2_unprotected_bundle_loses_operation:
  "slot (ex2_heap 10) Make = Some (Fn 1) \<and> slot (ex2_heap 10) Get = Some Null
   \<and> slot (ex2_heap 20) Make = Some Null \<and> slot (ex2_heap 20) Get = Some (Fn 2)
   \<and> type (ex2_heap 10) = Some (Str ''T'') \<and> type (ex2_heap 20) = Some (Str ''T'')
   \<and> (case addMixins [20, 10] (ex2_heap, no_plugins) of
        Threw e s' \<Rightarrow> False
      | Returned s' \<Rightarrow> mixins (snd s') ''T'' = Some [20, 10]
          \<and> slot (fst s' 10) Make = Some Null \<and> slot (fst s' 20) Make = Some Null
          \<and> slot (fst s' 10) Get = Some (Fn 2) \<and> slot (fst s' 20) Get = Some (Fn 2))
   \<and> (case addMixins [10, 20] (ex2_heap, no_plugins) of
        Threw e s' \<Rightarrow> False
      | Returned s' \<Rightarrow> mixins (snd s') ''T'' = Some [10, 20]
          \<and> slot (fst s' 10) Make = Some (Fn 1) \<and> slot (fst s' 20) Make = Some (Fn 1)
          \<and> slot (fst s' 10) Get = Some (Fn 2) \<and> slot (fst s' 20) Get = Some (Fn 2))"
proof -
  have t: "type (ex2_heap x) = Some (Str ''T'')" for x
    by (simp add: ex2_heap_def Mixin_constructor_def)
  have k: "property_key (Str ''T'') = ''T''" "''T'' \<notin> set object_prototype_names"
    by (simp_all add: property_key_def object_prototype_names_def)
  have s: "slot (ex2_heap 10) Make = Some (Fn 1)" "slot (ex2_heap 10) Get = Some Null"
    "slot (ex2_heap 20) Make = Some Null" "slot (ex2_heap 20) Get = Some (Fn 2)"
    by (simp_all add: ex2_heap_def Mixin_constructor_def)
  have f: "\<not> writeProtectedMethods (ex2_heap 10) Make" "\<not> writeProtectedMethods (ex2_heap 10) Get"
    "writeProtectedMethods (ex2_heap 20) Make" "writeProtectedMethods (ex2_heap 20) Get"
    by (simp_all add: ex2_heap_def Mixin_constructor_def)
  have first: "addMixins [20, 10] (ex2_heap, no_plugins) =
      Returned (patchMixin_at (patchMixin_at ex2_heap 10 20) 20 10,
                no_plugins\<lparr> mixins := (mixins no_plugins)(''T'' := Some [20, 10]) \<rparr>)"
    using first_of_type [of ex2_heap 20 "Str ''T''" no_plugins]
      second_of_type [of ex2_heap 10 "Str ''T''"
        "no_plugins\<lparr> mixins := (mixins no_plugins)(''T'' := Some [20]) \<rparr>" 20] t k
    by (simp add: no_plugins_def)
  have second: "addMixins [10, 20] (ex2_heap, no_plugins) =
      Returned (patchMixin_at (patchMixin_at ex2_heap 20 10) 10 20,
                no_plugins\<lparr> mixins := (mixins no_plugins)(''T'' := Some [10, 20]) \<rparr>)"
    using first_of_type [of ex2_heap 10 "Str ''T''" no_plugins]
      second_of_type [of ex2_heap 20 "Str ''T''"
        "no_plugins\<lparr> mixins := (mixins no_plugins)(''T'' := Some [10]) \<rparr>" 10] t k
    by (simp add: no_plugins_def)
  show ?thesis
    unfolding first second
    by (simp add: t s f patchMixin_at_slot patchMixin_at_flag refuses_def no_plugins_def)
qed

end
